(* ===== verification/Cry_Prelude.thy ===== *)
theory Cry_Prelude
  imports Main "HOL-Library.Word"
begin

text \<open>
  Shared vocabulary of the development of \<open>cry\<close>: the machine types, big-endian encodings
  (Rust's \<open>to_be_bytes\<close> and \<open>from_be_bytes\<close>), the codec interfaces the wire formats
  share, panics as values, and generic lemmas on lists, sums and words.
\<close>

section \<open>Machine types\<close>

type_synonym byte = "8 word"
type_synonym bytes = "byte list"
type_synonym u32 = "32 word"
type_synonym u64 = "64 word"

text \<open>A Rust \<open>&str\<close> is its UTF-8 bytes; \<open>char\<close> here is one byte.\<close>

definition str_bytes :: "string \<Rightarrow> bytes" where
  "str_bytes s = map (\<lambda>c. word_of_nat (of_char c)) s"

text \<open>The outcome of code that may panic.\<close>

datatype 'a outcome = Panicked | Returned 'a

section \<open>Collections of facts\<close>

named_theorems io_defs \<open>unfolding of the state-passing operations\<close>
named_theorems wire_length \<open>lengths of encoded fields\<close>

section \<open>Lists and sums\<close>

lemma take_drop_append_same [simp]:
  "length xs = n \<Longrightarrow> take n (xs @ ys) = xs"
  "length xs = n \<Longrightarrow> drop n (xs @ ys) = ys"
  by auto

lemma append_eq_by_length:
  "length a = length b \<Longrightarrow> (a @ x = b @ y) = (a = b \<and> x = y)"
  by simp

lemma append_eq_by_suffix_length:
  "length x = length y \<Longrightarrow> (a @ x = b @ y) = (a = b \<and> x = y)"
  by simp

section \<open>Results threaded through a state\<close>

text \<open>
  Every fallible operation returns its result beside the state it leaves. \<open>and_then\<close> is
  Rust's \<open>?\<close> followed by the rest of the function: an error returns at once, with the
  state as it is then. \<open>map_err\<close> is \<open>Result::map_err\<close>.
\<close>

definition and_then ::
  "('e + 'a) \<times> 's \<Rightarrow> ('a \<Rightarrow> 's \<Rightarrow> ('e + 'b) \<times> 's) \<Rightarrow> ('e + 'b) \<times> 's" where
  "and_then m k = (case m of (Inl e, s) \<Rightarrow> (Inl e, s) | (Inr x, s) \<Rightarrow> k x s)"

definition map_err :: "('e \<Rightarrow> 'f) \<Rightarrow> ('e + 'a) \<times> 's \<Rightarrow> ('f + 'a) \<times> 's" where
  "map_err f m = (case m of (Inl e, s) \<Rightarrow> (Inl (f e), s) | (Inr x, s) \<Rightarrow> (Inr x, s))"

lemma and_then_simps [simp]:
  "and_then (Inl e, s) k = (Inl e, s)"
  "and_then (Inr x, s) k = k x s"
  by (simp_all add: and_then_def)

lemma map_err_simps [simp]:
  "map_err f (Inl e, s) = (Inl (f e), s)"
  "map_err f (Inr x, s) = (Inr x, s)"
  by (simp_all add: map_err_def)

lemma and_then_Inr_iff:
  "and_then m k = (Inr y, s') \<longleftrightarrow> (\<exists>x s. m = (Inr x, s) \<and> k x s = (Inr y, s'))"
  by (auto simp: and_then_def split: prod.splits sum.splits)

lemma and_then_Inl_iff:
  "and_then m k = (Inl e, s') \<longleftrightarrow>
     m = (Inl e, s') \<or> (\<exists>x s. m = (Inr x, s) \<and> k x s = (Inl e, s'))"
  by (auto simp: and_then_def split: prod.splits sum.splits)

lemma map_err_Inr_iff: "map_err f m = (Inr x, s) \<longleftrightarrow> m = (Inr x, s)"
  by (auto simp: map_err_def split: prod.splits sum.splits)

lemma map_err_Inl_iff: "map_err f m = (Inl e', s) \<longleftrightarrow> (\<exists>e. m = (Inl e, s) \<and> e' = f e)"
  by (auto simp: map_err_def split: prod.splits sum.splits)

lemmas result_iffs = and_then_Inr_iff and_then_Inl_iff map_err_Inr_iff map_err_Inl_iff

text \<open>What every run of the parts keeps of the state, the composition keeps.\<close>

lemma and_then_state:
  assumes "Q (snd m)" and "\<And>x s. m = (Inr x, s) \<Longrightarrow> Q s \<Longrightarrow> Q (snd (k x s))"
  shows "Q (snd (and_then m k))"
  using assms by (cases m) (auto simp: and_then_def split: sum.splits)

lemma map_err_state [simp]: "snd (map_err f m) = snd m"
  by (auto simp: map_err_def split: prod.splits sum.splits)

section \<open>Formatting\<close>

fun show_nat_fuel :: "nat \<Rightarrow> nat \<Rightarrow> string" where
  "show_nat_fuel 0 n = []"
| "show_nat_fuel (Suc k) n =
     (if n < 10 then [char_of (48 + n)]
      else show_nat_fuel k (n div 10) @ [char_of (48 + n mod 10)])"

definition show_nat :: "nat \<Rightarrow> string" where
  "show_nat n = show_nat_fuel (Suc n) n"

text \<open>The two lower-case hexadecimal digits of \<open>{b:02x}\<close>.\<close>

definition hex_digit :: "nat \<Rightarrow> char" where
  "hex_digit n = (if n < 10 then char_of (48 + n) else char_of (87 + n))"

definition show_hex2 :: "byte \<Rightarrow> string" where
  "show_hex2 b = [hex_digit (unat b div 16), hex_digit (unat b mod 16)]"

text \<open>The UTF-8 bytes of the dash used in the program's messages.\<close>

definition em_dash :: string where
  "em_dash = [CHR 0xE2, CHR 0x80, CHR 0x94]"

section \<open>Big-endian integers\<close>

fun be_nat_acc :: "nat \<Rightarrow> bytes \<Rightarrow> nat" where
  "be_nat_acc acc [] = acc"
| "be_nat_acc acc (b # bs) = be_nat_acc (acc * 256 + unat b) bs"

definition be_nat :: "bytes \<Rightarrow> nat" where
  "be_nat bs = be_nat_acc 0 bs"

fun be_bytes :: "nat \<Rightarrow> nat \<Rightarrow> bytes" where
  "be_bytes 0 n = []"
| "be_bytes (Suc k) n = word_of_nat (n div 256 ^ k) # be_bytes k (n mod 256 ^ k)"

lemma length_be_bytes [simp, wire_length]: "length (be_bytes k n) = k"
  by (induction k arbitrary: n) auto

lemma be_nat_acc_eq: "be_nat_acc acc bs = acc * 256 ^ length bs + be_nat_acc 0 bs"
proof (induction bs arbitrary: acc)
  case Nil
  then show ?case by simp
next
  case (Cons b bs)
  have "be_nat_acc acc (b # bs) = be_nat_acc (acc * 256 + unat b) bs" by simp
  also have "\<dots> = (acc * 256 + unat b) * 256 ^ length bs + be_nat_acc 0 bs"
    by (rule Cons.IH)
  also have "\<dots> = acc * 256 ^ length (b # bs)
      + (unat b * 256 ^ length bs + be_nat_acc 0 bs)"
    by (simp add: algebra_simps)
  also have "unat b * 256 ^ length bs + be_nat_acc 0 bs = be_nat_acc 0 (b # bs)"
    using Cons.IH [of "unat b"] by simp
  finally show ?case .
qed

lemma be_nat_Nil [simp]: "be_nat [] = 0"
  by (simp add: be_nat_def)

lemma be_nat_Cons: "be_nat (b # bs) = unat b * 256 ^ length bs + be_nat bs"
  using be_nat_acc_eq [of "unat b" bs] by (simp add: be_nat_def)

lemma be_nat_append: "be_nat (xs @ ys) = be_nat xs * 256 ^ length ys + be_nat ys"
  by (induction xs) (simp_all add: be_nat_Cons power_add algebra_simps)

lemma unat_byte_less: "unat (b :: byte) < 256"
  using unsigned_less [of b] by simp

lemma unat_u32_less: "unat (x :: u32) < 2 ^ 32"
  using unsigned_less [of x] by simp

lemma unat_u64_less: "unat (x :: u64) < 2 ^ 64"
  using unsigned_less [of x] by simp

lemma u64_of_nat_inject:
  assumes "i < 2 ^ 64" and "j < 2 ^ 64"
  shows "(word_of_nat i :: u64) = word_of_nat j \<longleftrightarrow> i = j"
  using assms by (simp add: word_unat_eq_iff unat_of_nat)

lemma unat_mod_256_4: "unat (x :: u32) mod 256 ^ 4 = unat x"
  using unat_u32_less [of x] by simp

lemma unat_mod_256_8: "unat (x :: u64) mod 256 ^ 8 = unat x"
  using unat_u64_less [of x] by simp

lemma be_nat_less: "be_nat bs < 256 ^ length bs"
proof (induction bs)
  case Nil
  then show ?case by simp
next
  case (Cons b bs)
  have "unat b + 1 \<le> 256" using unat_byte_less [of b] by simp
  then have "(unat b + 1) * 256 ^ length bs \<le> 256 * 256 ^ length bs"
    by (rule mult_le_mono1)
  moreover have "unat b * 256 ^ length bs + be_nat bs < (unat b + 1) * 256 ^ length bs"
    using Cons.IH by (simp add: distrib_right)
  ultimately have "unat b * 256 ^ length bs + be_nat bs < 256 * 256 ^ length bs"
    by (rule less_le_trans [rotated])
  then show ?case by (simp add: be_nat_Cons)
qed

lemma be_nat_be_bytes: "be_nat (be_bytes k n) = n mod 256 ^ k"
proof (induction k arbitrary: n)
  case 0
  then show ?case by simp
next
  case (Suc k)
  have "n mod 256 ^ Suc k = 256 ^ k * (n div 256 ^ k mod 256) + n mod 256 ^ k"
    by (simp only: power_Suc2 mod_mult2_eq)
  then show ?case
    by (simp add: be_nat_Cons Suc.IH unat_of_nat mult.commute)
qed

lemma be_bytes_be_nat: "be_bytes (length bs) (be_nat bs) = bs"
proof (induction bs)
  case Nil
  then show ?case by simp
next
  case (Cons b bs)
  have "be_nat (b # bs) div 256 ^ length bs = unat b"
    using be_nat_less [of bs] by (simp add: be_nat_Cons)
  moreover have "be_nat (b # bs) mod 256 ^ length bs = be_nat bs"
    using be_nat_less [of bs] by (simp add: be_nat_Cons)
  ultimately show ?case using Cons.IH by simp
qed

lemma be_nat_inj: "length xs = length ys \<Longrightarrow> be_nat xs = be_nat ys \<Longrightarrow> xs = ys"
  by (metis be_bytes_be_nat)

text \<open>The four conversions the source uses, at their widths.\<close>

definition u32_to_be_bytes :: "u32 \<Rightarrow> bytes" where
  "u32_to_be_bytes x = be_bytes 4 (unat x)"

definition u32_from_be_bytes :: "bytes \<Rightarrow> u32" where
  "u32_from_be_bytes bs = word_of_nat (be_nat bs)"

definition u64_to_be_bytes :: "u64 \<Rightarrow> bytes" where
  "u64_to_be_bytes x = be_bytes 8 (unat x)"

definition u64_from_be_bytes :: "bytes \<Rightarrow> u64" where
  "u64_from_be_bytes bs = word_of_nat (be_nat bs)"

section \<open>Codec interfaces\<close>

text \<open>
  A partial codec prints a value and parses it back; a fixed-width codec prints to a constant
  number of bytes and parses every input of that length. The wire formats of the program
  (header fields, chunk frames, hexadecimal keys) rely on these laws.
\<close>

locale partial_codec =
  fixes enc :: "'a \<Rightarrow> 'b list"
    and dec :: "'b list \<Rightarrow> 'a option"
  assumes dec_enc: "dec (enc x) = Some x"
begin

lemma enc_inject: "enc x = enc y \<longleftrightarrow> x = y"
  by (metis dec_enc option.inject)

lemma enc_inj: "inj enc"
  by (simp add: inj_def enc_inject)

end

locale fixed_codec =
  fixes enc :: "'a \<Rightarrow> bytes"
    and dec :: "bytes \<Rightarrow> 'a"
    and width :: nat
  assumes length_enc: "length (enc x) = width"
    and dec_enc_id: "dec (enc x) = x"
    and enc_dec_id: "length bs = width \<Longrightarrow> enc (dec bs) = bs"
begin

lemma take_enc: "take width (enc x @ ys) = enc x"
  by (simp add: length_enc)

lemma drop_enc: "drop width (enc x @ ys) = ys"
  by (simp add: length_enc)

lemma enc_append_inject: "enc x @ xs = enc y @ ys \<longleftrightarrow> x = y \<and> xs = ys"
  by (metis dec_enc_id drop_enc take_enc)

lemma enc_suffix_inject: "xs @ enc x = ys @ enc y \<longleftrightarrow> xs = ys \<and> x = y"
  by (metis append_eq_by_suffix_length dec_enc_id length_enc)

end

sublocale fixed_codec \<subseteq> partial: partial_codec enc
  "\<lambda>bs. if length bs = width then Some (dec bs) else None"
  by unfold_locales (simp add: length_enc dec_enc_id)

interpretation be32: fixed_codec u32_to_be_bytes u32_from_be_bytes 4
proof unfold_locales
  fix x :: u32
  show "length (u32_to_be_bytes x) = 4" by (simp add: u32_to_be_bytes_def)
  show "u32_from_be_bytes (u32_to_be_bytes x) = x"
    by (simp only: u32_to_be_bytes_def u32_from_be_bytes_def be_nat_be_bytes unat_mod_256_4) simp
next
  fix bs :: bytes
  assume len: "length bs = 4"
  have "be_nat bs < 2 ^ 32" using be_nat_less [of bs] len by simp
  then have "unat (word_of_nat (be_nat bs) :: u32) = be_nat bs" by (simp add: unat_of_nat)
  with len show "u32_to_be_bytes (u32_from_be_bytes bs) = bs"
    by (simp only: u32_to_be_bytes_def u32_from_be_bytes_def) (metis be_bytes_be_nat)
qed

interpretation be64: fixed_codec u64_to_be_bytes u64_from_be_bytes 8
proof unfold_locales
  fix x :: u64
  show "length (u64_to_be_bytes x) = 8" by (simp add: u64_to_be_bytes_def)
  show "u64_from_be_bytes (u64_to_be_bytes x) = x"
    by (simp only: u64_to_be_bytes_def u64_from_be_bytes_def be_nat_be_bytes unat_mod_256_8) simp
next
  fix bs :: bytes
  assume len: "length bs = 8"
  have "be_nat bs < 2 ^ 64" using be_nat_less [of bs] len by simp
  then have "unat (word_of_nat (be_nat bs) :: u64) = be_nat bs" by (simp add: unat_of_nat)
  with len show "u64_to_be_bytes (u64_from_be_bytes bs) = bs"
    by (simp only: u64_to_be_bytes_def u64_from_be_bytes_def) (metis be_bytes_be_nat)
qed

lemmas be_lengths [simp, wire_length] = be32.length_enc be64.length_enc

lemma be_nat_u64: "be_nat (u64_to_be_bytes x) = unat x"
  by (simp only: u64_to_be_bytes_def be_nat_be_bytes unat_mod_256_8)

lemma be_nat_u32: "be_nat (u32_to_be_bytes x) = unat x"
  by (simp only: u32_to_be_bytes_def be_nat_be_bytes unat_mod_256_4)

end
