(* ===== verification/Cry_Error.thy ===== *)
theory Cry_Error
  imports Cry_Prelude
begin

text \<open>
  The structured error type of \<open>src/error.rs\<close> and its messages. Operating-system errors
  are their \<open>std::io::ErrorKind\<close>.
\<close>

section \<open>Errors\<close>

datatype io_error =
    NotFound
  | PermissionDenied
  | AlreadyExists
  | Interrupted
  | UnexpectedEof
  | WriteZero
  | OtherIo nat

datatype cry_error =
    Io io_error
  | EncryptionFailed
  | DecryptionFailed
  | HeaderTampered
  | Truncated u64 u64
  | InvalidFormat string
  | Kdf string
  | FileExists string
  | EmptyPassphrase
  | PassphraseMismatch
  | SuspiciousChunkLen u64 nat
  | VerificationFailed string

text \<open>
  The \<open>Display\<close> text of each error; the wording of an operating-system error is the
  operating system's, an argument here.
\<close>

fun display_error :: "(io_error \<Rightarrow> string) \<Rightarrow> cry_error \<Rightarrow> string" where
  "display_error os (Io e) = ''I/O error: '' @ os e"
| "display_error os EncryptionFailed = ''Encryption failed (AEAD error)''"
| "display_error os DecryptionFailed =
     ''Decryption failed '' @ em_dash @ '' wrong passphrase, corrupted file, or tampered ciphertext''"
| "display_error os HeaderTampered =
     ''Header authentication failed '' @ em_dash @ '' file may have been tampered with''"
| "display_error os (Truncated expected got) =
     ''File is truncated '' @ em_dash @ '' expected '' @ show_nat (unat expected) @
     '' chunks, got '' @ show_nat (unat got)"
| "display_error os (InvalidFormat m) = ''Invalid file format: '' @ m"
| "display_error os (Kdf m) = ''Key derivation failed: '' @ m"
| "display_error os (FileExists p) =
     ''Output file '' @ [CHR 0x27] @ p @ [CHR 0x27] @ '' already exists '' @ em_dash @
     '' use --force to overwrite''"
| "display_error os EmptyPassphrase = ''Passphrase must not be empty''"
| "display_error os PassphraseMismatch = ''Passphrases do not match''"
| "display_error os (SuspiciousChunkLen index len) =
     ''Chunk '' @ show_nat (unat index) @ '' length '' @ show_nat len @
     '' is suspiciously large '' @ em_dash @ '' file may be corrupted''"
| "display_error os (VerificationFailed m) = ''Verification failed: '' @ m"

end
