(* ===== verification/Cry_Io.thy ===== *)
theory Cry_Io
  imports Cry_Error
begin

text \<open>
  The byte streams behind Rust's \<open>Read\<close> and \<open>Write\<close>, and the reading loops over them:
  \<open>read_chunk\<close> of \<open>src/cipher.rs\<close> and the standard library's \<open>read_exact\<close> and
  \<open>write_all\<close>. A reader is the script of what successive \<open>read\<close> calls deliver, so a
  theorem for every script covers short reads, interrupted calls, failures and files that
  change while they are read.
\<close>

section \<open>Readers\<close>

datatype read_event = Data bytes | Fault io_error

type_synonym reader = "read_event list"

text \<open>One \<open>read\<close> into a buffer of \<open>n\<close> bytes; an exhausted script is end of file.\<close>

fun read_once :: "nat \<Rightarrow> reader \<Rightarrow> (io_error + bytes) \<times> reader" where
  "read_once n [] = (Inr [], [])"
| "read_once n (Fault e # r) = (Inl e, r)"
| "read_once n (Data bs # r) =
     (if length bs \<le> n then (Inr bs, r) else (Inr (take n bs), Data (drop n bs) # r))"

fun event_size :: "read_event \<Rightarrow> nat" where
  "event_size (Data bs) = Suc (length bs)"
| "event_size (Fault e) = 1"

definition reader_size :: "reader \<Rightarrow> nat" where
  "reader_size r = sum_list (map event_size r)"

lemma reader_size_simps [simp]:
  "reader_size [] = 0"
  "reader_size (ev # r) = event_size ev + reader_size r"
  by (simp_all add: reader_size_def)

lemma read_once_fault_size: "read_once n r = (Inl e, r') \<Longrightarrow> reader_size r' < reader_size r"
  by (cases "(n, r)" rule: read_once.cases) (auto split: if_splits)

lemma read_once_data_size:
  "read_once n r = (Inr bs, r') \<Longrightarrow> bs \<noteq> [] \<Longrightarrow> reader_size r' + length bs \<le> reader_size r"
  by (cases "(n, r)" rule: read_once.cases) (auto split: if_splits)

lemma read_once_progress:
  "read_once n r = (Inr bs, r') \<Longrightarrow> bs \<noteq> [] \<Longrightarrow> reader_size r' < reader_size r"
  by (metis add_lessD1 length_greater_0_conv less_add_same_cancel1 less_le_trans read_once_data_size)

lemma read_once_length: "read_once n r = (Inr bs, r') \<Longrightarrow> length bs \<le> n"
  by (cases "(n, r)" rule: read_once.cases) (auto split: if_splits)

text \<open>
  The loop of \<open>read_chunk\<close>: fill a buffer of \<open>cap\<close> bytes of which \<open>got\<close> are filled,
  stop at end of file, retry interrupted calls, give up on any other error.
\<close>

function read_loop :: "nat \<Rightarrow> bytes \<Rightarrow> reader \<Rightarrow> (io_error + bytes) \<times> reader" where
  "read_loop cap got r =
     (if length got < cap then
        (case read_once (cap - length got) r of
           (Inr bs, r') \<Rightarrow> if bs = [] then (Inr got, r') else read_loop cap (got @ bs) r'
         | (Inl e, r') \<Rightarrow> if e = Interrupted then read_loop cap got r' else (Inl e, r'))
      else (Inr got, r))"
  by pat_completeness auto
termination
  by (relation "measure (\<lambda>(cap, got, r). reader_size r)")
    (auto dest!: sym [of "(_, _)"] simp: read_once_fault_size read_once_progress)

declare read_loop.simps [simp del]

definition read_chunk :: "nat \<Rightarrow> reader \<Rightarrow> (cry_error + bytes) \<times> reader" where
  [io_defs]: "read_chunk cap r = map_err Io (read_loop cap [] r)"

definition read_exact :: "nat \<Rightarrow> reader \<Rightarrow> (io_error + bytes) \<times> reader" where
  [io_defs]: "read_exact n r = and_then (read_loop n [] r)
     (\<lambda>got r'. if length got < n then (Inl UnexpectedEof, r') else (Inr got, r'))"

subsection \<open>What a reader will deliver\<close>

text \<open>
  A stream is clean when no call fails for good and no call before the end delivers nothing;
  it may still cut its bytes anywhere and be interrupted at will. \<open>pending\<close> is what a
  clean stream still holds.
\<close>

fun clean_event :: "read_event \<Rightarrow> bool" where
  "clean_event (Data bs) = (bs \<noteq> [])"
| "clean_event (Fault e) = (e = Interrupted)"

definition clean :: "reader \<Rightarrow> bool" where
  "clean r = list_all clean_event r"

fun pending :: "reader \<Rightarrow> bytes" where
  "pending [] = []"
| "pending (Data bs # r) = bs @ pending r"
| "pending (Fault e # r) = pending r"

lemma clean_simps [simp]:
  "clean []"
  "clean (ev # r) = (clean_event ev \<and> clean r)"
  by (simp_all add: clean_def)

lemma pending_append [simp]: "pending (r @ s) = pending r @ pending s"
  by (induction r rule: pending.induct) auto

lemma clean_append [simp]: "clean (r @ s) = (clean r \<and> clean s)"
  by (simp add: clean_def)

lemma read_once_clean:
  assumes "clean r" and "read_once n r = (Inr bs, r')" and "0 < n"
  shows "clean r' \<and> pending r = bs @ pending r' \<and> (bs = [] \<longrightarrow> r = [] \<and> r' = [])"
  using assms by (cases "(n, r)" rule: read_once.cases) (auto split: if_splits)

lemma read_once_clean_fault:
  assumes "clean r" and "read_once n r = (Inl e, r')"
  shows "clean r' \<and> pending r' = pending r \<and> e = Interrupted"
  using assms by (cases "(n, r)" rule: read_once.cases) (auto split: if_splits)

lemma read_loop_clean:
  assumes "clean r" and "length got \<le> cap"
  shows "\<exists>r'. read_loop cap got r = (Inr (got @ take (cap - length got) (pending r)), r')
    \<and> clean r' \<and> pending r' = drop (cap - length got) (pending r)"
  using assms
proof (induction cap got r rule: read_loop.induct)
  case (1 cap got r)
  show ?case
  proof (cases "length got < cap")
    case False
    with "1.prems" show ?thesis by (simp add: read_loop.simps [of cap got r])
  next
    case True
    obtain res r1 where once: "read_once (cap - length got) r = (res, r1)" by fastforce
    show ?thesis
    proof (cases res)
      case (Inl e)
      then have fault: "clean r1" "pending r1 = pending r" "e = Interrupted"
        using read_once_clean_fault [OF "1.prems"(1)] once by auto
      show ?thesis
        using "1.IH"(1) [OF True once [symmetric] Inl fault(3) fault(1) "1.prems"(2)]
          True once Inl fault by (simp add: read_loop.simps [of cap got r])
    next
      case (Inr bs)
      then have data: "clean r1" "pending r = bs @ pending r1" "bs = [] \<longrightarrow> r = [] \<and> r1 = []"
        using read_once_clean [OF "1.prems"(1)] once True by auto
      have len: "length bs \<le> cap - length got" using once Inr by (simp add: read_once_length)
      show ?thesis
      proof (cases "bs = []")
        case True
        with data \<open>length got < cap\<close> show ?thesis
          by (simp add: read_loop.simps [of cap got "[]"])
      next
        case False
        have "length (got @ bs) \<le> cap" using len \<open>length got < cap\<close> by simp
        with "1.IH"(2) [OF True once [symmetric] Inr False data(1)]
        show ?thesis using True once Inr False data(2) len
          by (auto simp: read_loop.simps [of cap got r])
      qed
    qed
  qed
qed

text \<open>
  The opposite of clean: a call fails for good before the end. (The operating system reports the
  end of a file as an empty read, never as \<open>UnexpectedEof\<close>.)
\<close>

fun breaks :: "reader \<Rightarrow> bool" where
  "breaks [] = False"
| "breaks (Data bs # r) = (bs \<noteq> [] \<and> breaks r)"
| "breaks (Fault e # r) = (if e = Interrupted then breaks r else e \<noteq> UnexpectedEof)"

lemma read_once_breaks:
  assumes "breaks r" and "0 < n" and "read_once n r = (res, r')"
  shows "(case res of
      Inl e \<Rightarrow> e \<noteq> UnexpectedEof \<and> (e = Interrupted \<longrightarrow> breaks r')
    | Inr bs \<Rightarrow> bs \<noteq> [] \<and> breaks r')"
  using assms by (cases "(n, r)" rule: read_once.cases) (auto split: if_splits)

lemma read_loop_breaks:
  assumes "breaks r" and "read_loop cap got r = (res, r')"
  shows "(case res of Inl e \<Rightarrow> e \<noteq> UnexpectedEof | Inr bs \<Rightarrow> cap \<le> length bs \<and> breaks r')"
  using assms
proof (induction cap got r rule: read_loop.induct)
  case (1 cap got r)
  show ?case
  proof (cases "length got < cap")
    case False
    with "1.prems" show ?thesis by (auto simp: read_loop.simps [of cap got r])
  next
    case True
    obtain x r1 where once: "read_once (cap - length got) r = (x, r1)" by fastforce
    from read_once_breaks [OF "1.prems"(1) _ once] True
    have step: "case x of Inl e \<Rightarrow> e \<noteq> UnexpectedEof \<and> (e = Interrupted \<longrightarrow> breaks r1)
        | Inr bs \<Rightarrow> bs \<noteq> [] \<and> breaks r1" by simp
    show ?thesis
    proof (cases x)
      case (Inl e)
      with "1.IH"(1) [OF True once [symmetric] Inl] "1.prems"(2) True once step show ?thesis
        by (cases "e = Interrupted") (auto simp: read_loop.simps [of cap got r])
    next
      case (Inr bs)
      with step have "bs \<noteq> []" "breaks r1" by simp_all
      with "1.IH"(2) [OF True once [symmetric] Inr] "1.prems"(2) True once Inr show ?thesis
        by (simp add: read_loop.simps [of cap got r])
    qed
  qed
qed

lemma read_exact_breaks:
  assumes "breaks r" and "read_exact n r = (res, r')"
  shows "(case res of Inl e \<Rightarrow> e \<noteq> UnexpectedEof | Inr bs \<Rightarrow> breaks r')"
proof -
  obtain x r1 where loop: "read_loop n [] r = (x, r1)" by fastforce
  with read_loop_breaks [OF assms(1) loop] assms(2) show ?thesis
    by (cases x) (auto simp: read_exact_def and_then_def split: if_splits)
qed

subsection \<open>The two reading contracts\<close>

text \<open>
  \<open>chunk_source\<close> is the promise of \<open>read_chunk\<close>: as many bytes as asked for, fewer
  only at end of file. \<open>exact_source\<close> is the promise of \<open>read_exact\<close>: all or the
  end-of-file error. The chunk loops and the header parser are proved from these alone.
\<close>

locale chunk_source =
  fixes rc :: "nat \<Rightarrow> 's \<Rightarrow> ('e + bytes) \<times> 's"
    and pend :: "'s \<Rightarrow> bytes"
    and ok :: "'s \<Rightarrow> bool"
  assumes rc_take: "ok s \<Longrightarrow>
    \<exists>s'. rc n s = (Inr (take n (pend s)), s') \<and> ok s' \<and> pend s' = drop n (pend s)"
begin

lemma rc_result: "ok s \<Longrightarrow> fst (rc n s) = Inr (take n (pend s))"
  using rc_take [of s n] by auto

lemma rc_ok: "ok s \<Longrightarrow> rc n s = (res, s') \<Longrightarrow>
  res = Inr (take n (pend s)) \<and> ok s' \<and> pend s' = drop n (pend s)"
  using rc_take [of s n] by auto

lemma rc_fragmentation:
  "ok s \<Longrightarrow> ok t \<Longrightarrow> pend s = pend t \<Longrightarrow> fst (rc n s) = fst (rc n t)"
  by (simp add: rc_result)

end

locale exact_source =
  fixes rx :: "nat \<Rightarrow> 's \<Rightarrow> ('e + bytes) \<times> 's"
    and pend :: "'s \<Rightarrow> bytes"
    and ok :: "'s \<Rightarrow> bool"
    and eof :: 'e
  assumes rx_enough: "ok s \<Longrightarrow> n \<le> length (pend s) \<Longrightarrow>
      \<exists>s'. rx n s = (Inr (take n (pend s)), s') \<and> ok s' \<and> pend s' = drop n (pend s)"
    and rx_short: "ok s \<Longrightarrow> length (pend s) < n \<Longrightarrow>
      \<exists>s'. rx n s = (Inl eof, s') \<and> ok s' \<and> pend s' = []"
begin

lemma rx_prefix: "ok s \<Longrightarrow> pend s = xs @ ys \<Longrightarrow> length xs = n \<Longrightarrow>
  \<exists>s'. rx n s = (Inr xs, s') \<and> ok s' \<and> pend s' = ys"
  using rx_enough [of s n] by auto

lemma rx_Inr:
  assumes "ok s" and "rx n s = (Inr bs, s')"
  shows "length bs = n \<and> ok s' \<and> pend s = bs @ pend s'"
proof (cases "n \<le> length (pend s)")
  case True
  with assms rx_enough [of s n] show ?thesis by auto
next
  case False
  with assms rx_short [of s n] show ?thesis by auto
qed

lemma rx_Inl:
  assumes "ok s" and "rx n s = (Inl e, s')"
  shows "e = eof \<and> length (pend s) < n \<and> ok s' \<and> pend s' = []"
proof (cases "n \<le> length (pend s)")
  case True
  with assms rx_enough [of s n] show ?thesis by auto
next
  case False
  with assms rx_short [of s n] show ?thesis by auto
qed

end

interpretation rc: chunk_source read_chunk pending clean
proof unfold_locales
  fix s :: reader and n
  assume "clean s"
  then show "\<exists>s'. read_chunk n s = (Inr (take n (pending s)), s') \<and> clean s'
      \<and> pending s' = drop n (pending s)"
    using read_loop_clean [of s "[]" n] by (auto simp: read_chunk_def)
qed

interpretation rx: exact_source read_exact pending clean UnexpectedEof
proof unfold_locales
  fix s :: reader and n
  assume "clean s" "n \<le> length (pending s)"
  then show "\<exists>s'. read_exact n s = (Inr (take n (pending s)), s') \<and> clean s'
      \<and> pending s' = drop n (pending s)"
    using read_loop_clean [of s "[]" n] by (auto simp: read_exact_def)
next
  fix s :: reader and n
  assume "clean s" "length (pending s) < n"
  then show "\<exists>s'. read_exact n s = (Inl UnexpectedEof, s') \<and> clean s' \<and> pending s' = []"
    using read_loop_clean [of s "[]" n] by (auto simp: read_exact_def)
qed

subsection \<open>Progress of the reading loops on every reader\<close>

lemma read_loop_size:
  "read_loop cap got r = (Inr bs, r') \<Longrightarrow>
     length got \<le> length bs \<and> reader_size r' + length bs \<le> reader_size r + length got"
proof (induction cap got r rule: read_loop.induct)
  case (1 cap got r)
  show ?case
  proof (cases "length got < cap")
    case False
    with "1.prems" show ?thesis by (simp add: read_loop.simps [of cap got r])
  next
    case True
    obtain res r1 where once: "read_once (cap - length got) r = (res, r1)" by fastforce
    show ?thesis
    proof (cases res)
      case (Inl e)
      with "1.prems" True once have e: "e = Interrupted"
        by (auto simp: read_loop.simps [of cap got r] split: if_splits)
      with "1.prems" True once Inl have "read_loop cap got r1 = (Inr bs, r')"
        by (simp add: read_loop.simps [of cap got r])
      with "1.IH"(1) [OF True once [symmetric] Inl e] read_once_fault_size once Inl
      show ?thesis by fastforce
    next
      case (Inr cs)
      show ?thesis
      proof (cases "cs = []")
        case True
        have "reader_size r1 \<le> reader_size r"
          using once Inr True by (cases "(cap - length got, r)" rule: read_once.cases) (auto split: if_splits)
        with "1.prems" \<open>length got < cap\<close> once Inr True show ?thesis
          by (simp add: read_loop.simps [of cap got r])
      next
        case False
        with "1.prems" True once Inr have "read_loop cap (got @ cs) r1 = (Inr bs, r')"
          by (simp add: read_loop.simps [of cap got r])
        with "1.IH"(2) [OF True once [symmetric] Inr False]
          read_once_data_size [of _ r cs r1] once Inr False
        show ?thesis by fastforce
      qed
    qed
  qed
qed

lemma read_loop_length:
  "read_loop cap got r = (Inr bs, r') \<Longrightarrow> length got \<le> cap \<Longrightarrow> length bs \<le> cap"
proof (induction cap got r rule: read_loop.induct)
  case (1 cap got r)
  show ?case
  proof (cases "length got < cap")
    case False
    with "1.prems" show ?thesis by (simp add: read_loop.simps [of cap got r])
  next
    case True
    obtain res r1 where once: "read_once (cap - length got) r = (res, r1)" by fastforce
    show ?thesis
    proof (cases res)
      case (Inl e)
      with "1.prems" "1.IH"(1) [OF True once [symmetric] Inl] True once show ?thesis
        by (simp add: read_loop.simps [of cap got r] split: if_splits)
    next
      case (Inr cs)
      moreover have "length cs \<le> cap - length got" using once Inr by (simp add: read_once_length)
      ultimately show ?thesis
        using "1.prems" "1.IH"(2) [OF True once [symmetric] Inr] True once
        by (simp add: read_loop.simps [of cap got r] split: if_splits)
    qed
  qed
qed

lemma read_chunk_length: "read_chunk cap r = (Inr bs, r') \<Longrightarrow> length bs \<le> cap"
  using read_loop_length [of cap "[]" r bs r'] by (simp add: read_chunk_def map_err_Inr_iff)

lemma read_chunk_progress:
  "read_chunk cap r = (Inr bs, r') \<Longrightarrow> bs \<noteq> [] \<Longrightarrow> reader_size r' < reader_size r"
  using read_loop_size [of cap "[]" r bs r']
  by (cases bs) (auto simp: read_chunk_def map_err_Inr_iff)

lemma read_exact_size:
  "read_exact n r = (Inr bs, r') \<Longrightarrow> length bs \<ge> n \<and> reader_size r' + length bs \<le> reader_size r"
  using read_loop_size [of n "[]" r] by (auto simp: read_exact_def and_then_Inr_iff split: if_splits)

section \<open>Writers\<close>

text \<open>
  A writer collects what was written and follows a script: each \<open>write_all\<close> or
  \<open>flush\<close> either goes through or fails after a prefix of its bytes. An exhausted script
  means no further failures.
\<close>

datatype write_event = Accept | Refuse nat io_error

record writer =
  sunk :: bytes
  wplan :: "write_event list"

definition write_all :: "bytes \<Rightarrow> writer \<Rightarrow> (io_error + unit) \<times> writer" where
  [io_defs]: "write_all bs w =
    (case wplan w of
       [] \<Rightarrow> (Inr (), w\<lparr>sunk := sunk w @ bs\<rparr>)
     | Accept # p \<Rightarrow> (Inr (), w\<lparr>sunk := sunk w @ bs, wplan := p\<rparr>)
     | Refuse k e # p \<Rightarrow> (Inl e, w\<lparr>sunk := sunk w @ take k bs, wplan := p\<rparr>))"

definition flush :: "writer \<Rightarrow> (io_error + unit) \<times> writer" where
  [io_defs]: "flush w = write_all [] w"

definition willing :: "writer \<Rightarrow> bool" where
  "willing w = list_all (\<lambda>ev. ev = Accept) (wplan w)"

lemma write_all_willing:
  "willing w \<Longrightarrow> \<exists>w'. write_all bs w = (Inr (), w') \<and> sunk w' = sunk w @ bs \<and> willing w'"
  by (auto simp: willing_def write_all_def split: list.splits)

lemma write_all_Inr: "write_all bs w = (Inr u, w') \<Longrightarrow> sunk w' = sunk w @ bs"
  by (auto simp: write_all_def split: list.splits write_event.splits)

lemma flush_willing:
  "willing w \<Longrightarrow> \<exists>w'. flush w = (Inr (), w') \<and> sunk w' = sunk w \<and> willing w'"
  using write_all_willing [of w "[]"] by (simp add: flush_def)

lemma flush_Inr: "flush w = (Inr u, w') \<Longrightarrow> sunk w' = sunk w"
  using write_all_Inr [of "[]" w u w'] by (simp add: flush_def)

section \<open>Properties\<close>

text \<open>C37. The buffer-filling loop does not depend on how the operating system cuts the
  stream: two deliveries of the same bytes, in pieces of any sizes and with interrupted calls
  anywhere, fill the buffer with the same bytes, namely the first \<open>cap\<close> of the stream, and
  leave the rest to be read.\<close>

theorem read_chunk_fragmentation:
  assumes "clean r" and "clean s" and "pending r = pending s"
  shows "fst (read_chunk cap r) = Inr (take cap (pending r)) \<and>
    fst (read_chunk cap s) = fst (read_chunk cap r) \<and>
    pending (snd (read_chunk cap r)) = drop cap (pending r)"
  using rc.rc_fragmentation [OF assms, of cap] rc.rc_take [OF assms(1), of cap] by auto

theorem read_chunk_fragmentation_witness:
  "fst (read_chunk 3 [Data [1], Fault Interrupted, Data [2, 3, 4]]) = Inr [1, 2, 3]"
proof -
  have "clean [Data [1], Fault Interrupted, Data [2, 3, 4]]" "clean [Data [1, 2, 3, 4]]" by simp_all
  from read_chunk_fragmentation [OF this, of 3] show ?thesis by simp
qed

end
