(* ===== verification/Cry_World.thy ===== *)
theory Cry_World
  imports Cry_Io
begin

text \<open>
  The operating system as the program sees it: Unix path names, a store of regular files with
  their modes, the random source and the terminal, and the system calls of \<open>std::fs\<close> over
  them. Every call first consults a script of failures, so a theorem for every world covers
  every combination of failing calls. Two different path strings name two different files:
  links and relative spellings of one file are not represented.
\<close>

section \<open>Path names\<close>

text \<open>
  \<open>Path::file_name\<close>, \<open>file_stem\<close> and \<open>with_extension\<close> on Unix. Trailing
  slashes and trailing \<open>/.\<close> are not components; \<open>..\<close>, a lone dot, the root and the
  empty path have no file name. The functions work on the reversed string.
\<close>

fun strip_tail_rev :: "string \<Rightarrow> string" where
  "strip_tail_rev [] = []"
| "strip_tail_rev [c] = (if c = CHR ''/'' then [] else [c])"
| "strip_tail_rev (c # d # p) =
     (if c = CHR ''/'' then strip_tail_rev (d # p)
      else if c = CHR ''.'' \<and> d = CHR ''/'' then strip_tail_rev p
      else c # d # p)"

definition path_tail :: "string \<Rightarrow> string" where
  "path_tail p = rev (takeWhile (\<lambda>c. c \<noteq> CHR ''/'') (strip_tail_rev (rev p)))"

definition path_dir :: "string \<Rightarrow> string" where
  "path_dir p = rev (dropWhile (\<lambda>c. c \<noteq> CHR ''/'') (strip_tail_rev (rev p)))"

definition file_name :: "string \<Rightarrow> string option" where
  "file_name p = (if path_tail p \<in> {[], ''.'', ''..''} then None else Some (path_tail p))"

text \<open>
  The stem is what precedes the last dot, or the whole name when there is no dot or only a
  leading one.
\<close>

definition file_stem_of :: "string \<Rightarrow> string" where
  "file_stem_of n =
    (let before = rev (drop 1 (dropWhile (\<lambda>c. c \<noteq> CHR ''.'') (rev n)))
     in if CHR ''.'' \<in> set n \<and> before \<noteq> [] then before else n)"

definition with_extension :: "string \<Rightarrow> string \<Rightarrow> string" where
  "with_extension p ext =
    (case file_name p of
       None \<Rightarrow> p
     | Some n \<Rightarrow> path_dir p @ file_stem_of n @ ''.'' @ ext)"

lemma strip_tail_rev_suffix:
  "\<exists>xs. p = xs @ strip_tail_rev p \<and> (xs = [] \<or> last xs = CHR ''/'')"
proof (induction p rule: strip_tail_rev.induct)
  case (3 c d p)
  consider (slash) "c = CHR ''/''" | (dot) "c = CHR ''.''" "d = CHR ''/''"
    | (stop) "c \<noteq> CHR ''/''" "\<not> (c = CHR ''.'' \<and> d = CHR ''/'')" by blast
  then show ?case
  proof cases
    case slash
    with "3.IH"(1) obtain xs where "d # p = xs @ strip_tail_rev (d # p)"
      "xs = [] \<or> last xs = CHR ''/''" by blast
    with slash show ?thesis by (intro exI [of _ "c # xs"]) auto
  next
    case dot
    with "3.IH"(2) obtain xs where "p = xs @ strip_tail_rev p"
      "xs = [] \<or> last xs = CHR ''/''" by auto
    with dot show ?thesis by (intro exI [of _ "c # d # xs"]) auto
  next
    case stop
    then show ?thesis by (intro exI [of _ "[]"]) auto
  qed
qed auto

lemma path_split: "\<exists>trail. p = path_dir p @ path_tail p @ trail \<and> (trail = [] \<or> hd trail = CHR ''/'')"
proof -
  obtain xs where "rev p = xs @ strip_tail_rev (rev p)" "xs = [] \<or> last xs = CHR ''/''"
    using strip_tail_rev_suffix by blast
  then have "p = rev (strip_tail_rev (rev p)) @ rev xs" "rev xs = [] \<or> hd (rev xs) = CHR ''/''"
    by (metis rev_append rev_rev_ident, simp add: hd_rev)
  moreover have "rev (strip_tail_rev (rev p)) = path_dir p @ path_tail p"
    unfolding path_dir_def path_tail_def by (simp flip: rev_append)
  ultimately have "p = path_dir p @ path_tail p @ rev xs" "rev xs = [] \<or> hd (rev xs) = CHR ''/''"
    by (metis append.assoc, metis)
  then show ?thesis by blast
qed

lemma path_tail_no_slash: "CHR ''/'' \<notin> set (path_tail p)"
  by (auto simp: path_tail_def dest: set_takeWhileD)

lemma file_stem_of_no_slash: "CHR ''/'' \<notin> set n \<Longrightarrow> CHR ''/'' \<notin> set (file_stem_of n)"
  by (auto simp: file_stem_of_def Let_def dest!: in_set_dropD set_dropWhileD)

text \<open>A file name is its stem, followed, if by anything, by a dot and a text without dots.\<close>

lemma file_stem_of_split:
  "n = file_stem_of n \<or> (\<exists>after. n = file_stem_of n @ ''.'' @ after \<and> CHR ''.'' \<notin> set after)"
proof (cases "CHR ''.'' \<in> set n \<and> rev (drop 1 (dropWhile (\<lambda>c. c \<noteq> CHR ''.'') (rev n))) \<noteq> []")
  case False
  then show ?thesis by (auto simp: file_stem_of_def Let_def)
next
  case True
  let ?d = "dropWhile (\<lambda>c. c \<noteq> CHR ''.'') (rev n)" and ?t = "takeWhile (\<lambda>c. c \<noteq> CHR ''.'') (rev n)"
  have stem: "file_stem_of n = rev (drop 1 ?d)" using True by (simp add: file_stem_of_def Let_def)
  have "?d \<noteq> []" using True by auto
  moreover have "hd ?d = CHR ''.''" using \<open>?d \<noteq> []\<close> hd_dropWhile by blast
  ultimately have "?d = CHR ''.'' # drop 1 ?d" by (cases ?d) auto
  then have "rev n = ?t @ CHR ''.'' # drop 1 ?d" by (metis takeWhile_dropWhile_id)
  then have "n = rev (?t @ CHR ''.'' # drop 1 ?d)" by (metis rev_rev_ident)
  then have "n = file_stem_of n @ ''.'' @ rev ?t" by (simp add: stem)
  moreover have "CHR ''.'' \<notin> set (rev ?t)" by (auto dest: set_takeWhileD)
  ultimately show ?thesis by blast
qed

text \<open>
  A two-part extension such as \<open>cry.tmp\<close> always names another file than the path it is
  derived from.
\<close>

lemma with_extension_neq:
  assumes "file_name p = Some n" and "CHR ''.'' \<in> set ext" and "CHR ''/'' \<notin> set ext"
  shows "with_extension p ext \<noteq> p"
proof
  assume eq: "with_extension p ext = p"
  obtain trail where trail: "p = path_dir p @ n @ trail" "trail = [] \<or> hd trail = CHR ''/''"
    using path_split [of p] assms(1) by (auto simp: file_name_def split: if_splits)
  have n: "CHR ''/'' \<notin> set n"
    using assms(1) path_tail_no_slash by (auto simp: file_name_def split: if_splits)
  have "path_dir p @ file_stem_of n @ ''.'' @ ext = path_dir p @ n @ trail"
    using eq trail(1) assms(1) by (simp add: with_extension_def)
  then have tails: "file_stem_of n @ ''.'' @ ext = n @ trail" by simp
  have "CHR ''/'' \<notin> set (file_stem_of n @ ''.'' @ ext)"
    using file_stem_of_no_slash [OF n] assms(3) by simp
  then have "trail = []" using tails trail(2)
    by (metis Un_iff hd_in_set set_append)
  with tails have *: "file_stem_of n @ ''.'' @ ext = n" by simp
  from file_stem_of_split [of n] show False
  proof (elim disjE exE conjE)
    assume "n = file_stem_of n"
    then have "length (file_stem_of n @ ''.'' @ ext) = length (file_stem_of n)" using * by metis
    then show False by simp
  next
    fix after
    assume "n = file_stem_of n @ ''.'' @ after" "CHR ''.'' \<notin> set after"
    then have "ext = after" using * by (metis same_append_eq)
    with \<open>CHR ''.'' \<notin> set after\<close> assms(2) show False by simp
  qed
qed

lemma path_dir_end: "rev (path_dir p) = [] \<or> hd (rev (path_dir p)) = CHR ''/''"
  using hd_dropWhile [of "\<lambda>c. c \<noteq> CHR ''/''" "strip_tail_rev (rev p)"] by (auto simp: path_dir_def)

lemma file_name_join:
  assumes "CHR ''/'' \<notin> set x" and "2 \<le> length x" and "x \<noteq> ''..''"
  shows "file_name (path_dir p @ x) = Some x"
proof -
  obtain c d r where x: "rev x = c # d # r"
    using assms(2) by (metis (no_types) Suc_le_length_iff length_rev numeral_2_eq_2)
  then have "c \<noteq> CHR ''/''" "d \<noteq> CHR ''/''"
    using assms(1) by (metis list.set_intros set_rev)+
  then have "strip_tail_rev (rev (path_dir p @ x)) = rev x @ rev (path_dir p)" using x by simp
  moreover have "takeWhile (\<lambda>c. c \<noteq> CHR ''/'') (rev x @ rev (path_dir p)) = rev x"
    using assms(1) path_dir_end [of p]
    by (subst takeWhile_append2) (auto, cases "rev (path_dir p)", auto)
  ultimately have "path_tail (path_dir p @ x) = x" by (simp add: path_tail_def)
  then show ?thesis using assms(2,3) by (auto simp: file_name_def)
qed

lemma file_name_with_extension:
  assumes "file_name p = Some n" and "CHR ''/'' \<notin> set ext" and "2 \<le> length ext"
  shows "file_name (with_extension p ext) = Some (file_stem_of n @ ''.'' @ ext)"
proof -
  have n: "CHR ''/'' \<notin> set n"
    using assms(1) path_tail_no_slash by (auto simp: file_name_def split: if_splits)
  have "length (file_stem_of n @ ''.'' @ ext) \<noteq> length ''..''" using assms(3) by simp
  then have "file_stem_of n @ ''.'' @ ext \<noteq> ''..''" by metis
  then show ?thesis
    using assms file_stem_of_no_slash [OF n]
    by (simp add: with_extension_def file_name_join del: append.simps append_Cons)
qed

section \<open>The world\<close>

text \<open>
  \<open>deliver\<close> says how an opened file's bytes arrive, \<open>wplans\<close> how each writer behaves,
  \<open>faults\<close> which of the coming system calls fail, \<open>buffered\<close> how many bytes behind the
  header a \<open>BufReader\<close> already holds when the header has been read, and \<open>answers\<close>
  what is typed at the password prompts.
\<close>

record fentry =
  contents :: bytes
  mode :: nat

record world =
  files :: "string \<Rightarrow> fentry option"
  create_mode :: nat
  faults :: "io_error option list"
  deliver :: "bytes \<Rightarrow> reader"
  wplans :: "write_event list list"
  buffered :: nat
  entropy :: "nat \<Rightarrow> byte"
  drawn :: nat
  thread_entropy :: "nat \<Rightarrow> byte"
  answers :: "(io_error + bytes) list"

definition set_file :: "string \<Rightarrow> fentry \<Rightarrow> world \<Rightarrow> world" where
  "set_file p e w = w\<lparr>files := (files w)(p := Some e)\<rparr>"

definition clear_file :: "string \<Rightarrow> world \<Rightarrow> world" where
  "clear_file p w = w\<lparr>files := (files w)(p := None)\<rparr>"

text \<open>The store the system calls update, by its laws.\<close>

locale store =
  fixes look :: "'w \<Rightarrow> 'p \<Rightarrow> 'v option"
    and put :: "'p \<Rightarrow> 'v \<Rightarrow> 'w \<Rightarrow> 'w"
    and del :: "'p \<Rightarrow> 'w \<Rightarrow> 'w"
  assumes look_put: "look (put p v w) q = (if q = p then Some v else look w q)"
    and look_del: "look (del p w) q = (if q = p then None else look w q)"
begin

lemma look_put_same: "look (put p v w) p = Some v"
  by (simp add: look_put)

lemma look_move: "look (put b v (del a w)) q = (if q = b then Some v else if q = a then None else look w q)"
  by (simp add: look_put look_del)

lemma look_move_same: "look w a = Some v \<Longrightarrow> look (put a v (del a w)) = look w"
  by (rule ext) (simp add: look_move)

end

interpretation fs: store files set_file clear_file
  by unfold_locales (simp_all add: set_file_def clear_file_def)

section \<open>System calls\<close>

definition syscall :: "world \<Rightarrow> (io_error + unit) \<times> world" where
  "syscall w = (case faults w of
     [] \<Rightarrow> (Inr (), w)
   | None # f \<Rightarrow> (Inr (), w\<lparr>faults := f\<rparr>)
   | Some e # f \<Rightarrow> (Inl e, w\<lparr>faults := f\<rparr>))"

text \<open>\<open>Path::exists\<close> is false when the metadata cannot be read.\<close>

definition path_exists :: "string \<Rightarrow> world \<Rightarrow> bool \<times> world" where
  "path_exists p w =
    (case syscall w of
       (Inl e, w) \<Rightarrow> (False, w)
     | (Inr _, w) \<Rightarrow> (files w p \<noteq> None, w))"

definition lookup_file :: "string \<Rightarrow> world \<Rightarrow> (io_error + fentry) \<times> world" where
  "lookup_file p w = and_then (syscall w) (\<lambda>_ w.
     case files w p of None \<Rightarrow> (Inl NotFound, w) | Some e \<Rightarrow> (Inr e, w))"

definition metadata_len :: "string \<Rightarrow> world \<Rightarrow> (io_error + u64) \<times> world" where
  "metadata_len p w = and_then (lookup_file p w) (\<lambda>e w. (Inr (word_of_nat (length (contents e))), w))"

definition file_open :: "string \<Rightarrow> world \<Rightarrow> (io_error + bytes) \<times> world" where
  "file_open p w = and_then (lookup_file p w) (\<lambda>e w. (Inr (contents e), w))"

text \<open>A call that has to name a directory entry fails on a path without a file name.\<close>

definition entry_call :: "string \<Rightarrow> world \<Rightarrow> (io_error + unit) \<times> world" where
  "entry_call p w = and_then (syscall w) (\<lambda>_ w.
     if file_name p = None then (Inl (OtherIo 21), w) else (Inr (), w))"

text \<open>\<open>File::create\<close> truncates an existing file and keeps its mode.\<close>

definition file_create :: "string \<Rightarrow> world \<Rightarrow> (io_error + unit) \<times> world" where
  "file_create p w = and_then (entry_call p w) (\<lambda>_ w.
     (Inr (), set_file p \<lparr>contents = [],
        mode = (case files w p of None \<Rightarrow> create_mode w | Some e \<Rightarrow> mode e)\<rparr> w))"

definition rename :: "string \<Rightarrow> string \<Rightarrow> world \<Rightarrow> (io_error + unit) \<times> world" where
  "rename a b w = and_then (entry_call b w) (\<lambda>_ w.
     case files w a of
       None \<Rightarrow> (Inl NotFound, w)
     | Some e \<Rightarrow> (Inr (), set_file b e (clear_file a w)))"

definition remove_file :: "string \<Rightarrow> world \<Rightarrow> (io_error + unit) \<times> world" where
  "remove_file p w = and_then (entry_call p w) (\<lambda>_ w.
     case files w p of
       None \<Rightarrow> (Inl NotFound, w)
     | Some e \<Rightarrow> (Inr (), clear_file p w))"

definition set_permissions :: "string \<Rightarrow> nat \<Rightarrow> world \<Rightarrow> (io_error + unit) \<times> world" where
  "set_permissions p m w = and_then (entry_call p w) (\<lambda>_ w.
     case files w p of
       None \<Rightarrow> (Inl NotFound, w)
     | Some e \<Rightarrow> (Inr (), set_file p (e\<lparr>mode := m\<rparr>) w))"

text \<open>A created file is written through one writer; what the writer took is in the file.\<close>

definition new_writer :: "world \<Rightarrow> writer \<times> world" where
  "new_writer w = (case wplans w of
     [] \<Rightarrow> (\<lparr>sunk = [], wplan = []\<rparr>, w)
   | p # ps \<Rightarrow> (\<lparr>sunk = [], wplan = p\<rparr>, w\<lparr>wplans := ps\<rparr>))"

definition save_file :: "string \<Rightarrow> bytes \<Rightarrow> world \<Rightarrow> world" where
  "save_file p bs w = (case files w p of
     None \<Rightarrow> w
   | Some e \<Rightarrow> set_file p (e\<lparr>contents := bs\<rparr>) w)"

definition through_writer ::
  "string \<Rightarrow> (writer \<Rightarrow> ('e + 'a) \<times> writer) \<Rightarrow> world \<Rightarrow> ('e + 'a) \<times> world" where
  "through_writer p f w =
    (let (writer, w) = new_writer w;
         (res, writer) = f writer
     in (res, save_file p (sunk writer) w))"

text \<open>\<open>std::fs::read\<close> and \<open>std::fs::write\<close>.\<close>

definition fs_read :: "string \<Rightarrow> world \<Rightarrow> (io_error + bytes) \<times> world" where
  "fs_read p w = file_open p w"

definition fs_write :: "string \<Rightarrow> bytes \<Rightarrow> world \<Rightarrow> (io_error + unit) \<times> world" where
  "fs_write p bs w = and_then (file_create p w) (\<lambda>_ w.
     through_writer p (write_all bs) w)"

text \<open>\<open>OsRng::fill_bytes\<close>: the next bytes of the random source.\<close>

definition fill_bytes :: "nat \<Rightarrow> world \<Rightarrow> bytes \<times> world" where
  "fill_bytes n w = (map (\<lambda>i. entropy w (drawn w + i)) [0..<n], w\<lparr>drawn := drawn w + n\<rparr>)"

lemma length_fill_bytes [simp]: "length (fst (fill_bytes n w)) = n"
  by (simp add: fill_bytes_def)

section \<open>What a call may change\<close>

text \<open>
  \<open>touches S w w'\<close>: from \<open>w\<close> to \<open>w'\<close> no file outside \<open>S\<close> changed, and the
  environment is the same.
\<close>

definition touches :: "string set \<Rightarrow> world \<Rightarrow> world \<Rightarrow> bool" where
  "touches S w w' \<longleftrightarrow> (\<forall>q. q \<notin> S \<longrightarrow> files w' q = files w q) \<and>
     create_mode w' = create_mode w \<and> deliver w' = deliver w \<and> entropy w' = entropy w \<and>
     buffered w' = buffered w"

named_theorems frame \<open>which files an operation may change\<close>

lemma touches_refl [simp, frame]: "touches S w w"
  by (simp add: touches_def)

lemma touches_trans: "touches S u v \<Longrightarrow> touches S v w \<Longrightarrow> touches S u w"
  by (simp add: touches_def)

lemma touches_mono: "touches S u v \<Longrightarrow> S \<subseteq> T \<Longrightarrow> touches T u v"
  by (auto simp: touches_def)

lemma touches_files: "touches S w w' \<Longrightarrow> q \<notin> S \<Longrightarrow> files w' q = files w q"
  by (simp add: touches_def)

lemma touches_none: "touches {} w w' \<Longrightarrow> files w' = files w"
  by (auto simp: touches_def)

lemma touches_and_then:
  assumes "touches S w (snd m)" and "\<And>x s. m = (Inr x, s) \<Longrightarrow> touches S s (snd (k x s))"
  shows "touches S w (snd (and_then m k))"
  using assms by (cases m) (auto simp: and_then_def split: sum.splits intro: touches_trans)

lemma touches_syscall [frame]: "touches S w (snd (syscall w))"
  by (auto simp: syscall_def touches_def split: list.splits option.splits)

lemma touches_path_exists [frame]: "touches S w (snd (path_exists p w))"
  using touches_syscall [of S w] by (auto simp: path_exists_def split: prod.splits sum.splits)

lemma touches_lookup_file [frame]: "touches S w (snd (lookup_file p w))"
  unfolding lookup_file_def
  by (rule touches_and_then) (auto simp: frame split: option.splits)

lemma touches_metadata_len [frame]: "touches S w (snd (metadata_len p w))"
  unfolding metadata_len_def by (rule touches_and_then) (auto simp: frame)

lemma touches_file_open [frame]: "touches S w (snd (file_open p w))"
  unfolding file_open_def by (rule touches_and_then) (auto simp: frame)

lemma touches_fs_read [frame]: "touches S w (snd (fs_read p w))"
  by (simp add: fs_read_def frame)

lemma touches_entry_call [frame]: "touches S w (snd (entry_call p w))"
  unfolding entry_call_def by (rule touches_and_then) (auto simp: frame)

lemma touches_set_file [frame]: "p \<in> S \<Longrightarrow> touches S w (set_file p e w)"
  by (auto simp: touches_def set_file_def)

lemma touches_clear_file [frame]: "p \<in> S \<Longrightarrow> touches S w (clear_file p w)"
  by (auto simp: touches_def clear_file_def)

text \<open>The file a path can name: none when it has no file name.\<close>

definition entry :: "string \<Rightarrow> string set" where
  "entry p = (if file_name p = None then {} else {p})"

lemma entry_subset [frame]: "p \<in> S \<Longrightarrow> entry p \<subseteq> S"
  by (simp add: entry_def)

lemma with_extension_entry:
  "CHR ''.'' \<in> set ext \<Longrightarrow> CHR ''/'' \<notin> set ext \<Longrightarrow> p \<notin> entry (with_extension p ext)"
  using with_extension_neq [of p _ ext]
  by (cases "file_name p") (auto simp: entry_def with_extension_def split: if_splits)

lemma entry_call_Inr: "entry_call p w = (Inr u, w') \<Longrightarrow> files w' = files w \<and> entry p = {p}"
  using touches_none [OF touches_entry_call [of "{}" w p]]
  by (auto simp: entry_call_def entry_def and_then_Inr_iff split: if_splits)

lemma touches_file_create [frame]: "entry p \<subseteq> S \<Longrightarrow> touches S w (snd (file_create p w))"
  unfolding file_create_def
  by (rule touches_and_then) (auto simp: frame dest!: entry_call_Inr)

lemma touches_rename [frame]:
  "a \<in> S \<Longrightarrow> entry b \<subseteq> S \<Longrightarrow> touches S w (snd (rename a b w))"
  unfolding rename_def
  by (rule touches_and_then)
    (auto simp: frame split: option.splits dest!: entry_call_Inr
      intro: touches_trans [OF touches_clear_file touches_set_file])

lemma touches_remove_file [frame]: "entry p \<subseteq> S \<Longrightarrow> touches S w (snd (remove_file p w))"
  unfolding remove_file_def
  by (rule touches_and_then) (auto simp: frame split: option.splits dest!: entry_call_Inr)

lemma touches_set_permissions [frame]:
  "entry p \<subseteq> S \<Longrightarrow> touches S w (snd (set_permissions p m w))"
  unfolding set_permissions_def
  by (rule touches_and_then) (auto simp: frame split: option.splits dest!: entry_call_Inr)

lemma touches_new_writer [frame]: "touches S w (snd (new_writer w))"
  by (auto simp: new_writer_def touches_def split: list.splits)

lemma touches_save_file [frame]: "p \<in> S \<Longrightarrow> touches S w (save_file p bs w)"
  by (auto simp: save_file_def frame split: option.splits)

lemma file_create_Inr:
  assumes "file_create p w = (Inr u, w')"
  shows "entry p = {p} \<and> (\<exists>e. files w' p = Some e \<and> contents e = [] \<and>
    mode e = (case files w p of None \<Rightarrow> create_mode w | Some old \<Rightarrow> mode old))"
proof -
  obtain v s where s: "entry_call p w = (Inr v, s)" and w': "w' = set_file p \<lparr>contents = [],
      mode = (case files s p of None \<Rightarrow> create_mode s | Some e \<Rightarrow> mode e)\<rparr> s"
    using assms by (auto simp: file_create_def and_then_Inr_iff)
  have "create_mode s = create_mode w"
    using touches_entry_call [of "{}" w p] s by (simp add: touches_def)
  with entry_call_Inr [OF s] w' show ?thesis by (simp add: fs.look_put split: option.splits)
qed

lemma touches_through_writer [frame]: "p \<in> S \<Longrightarrow> touches S w (snd (through_writer p f w))"
  using touches_new_writer [of S w]
  by (auto simp: through_writer_def split: prod.splits intro: touches_trans touches_save_file)

lemma save_file_same:
  "files w p = Some e \<Longrightarrow> files (save_file p bs w) p = Some (e\<lparr>contents := bs\<rparr>)"
  by (simp add: save_file_def fs.look_put)

lemma through_writer_Inr:
  assumes "through_writer p f w = (Inr x, w')" and "files w p = Some e"
  shows "\<exists>wr wr'. sunk wr = [] \<and> f wr = (Inr x, wr') \<and>
    files w' p = Some (e\<lparr>contents := sunk wr'\<rparr>)"
proof -
  obtain wr s where wr: "new_writer w = (wr, s)" by fastforce
  then have "files s = files w" "sunk wr = []"
    using touches_none [OF touches_new_writer [of "{}" w]]
    by (auto simp: new_writer_def split: list.splits)
  with assms wr show ?thesis
    by (auto simp: through_writer_def save_file_same split: prod.splits)
qed

lemma touches_fs_write [frame]: "entry p \<subseteq> S \<Longrightarrow> touches S w (snd (fs_write p bs w))"
  unfolding fs_write_def
  by (rule touches_and_then) (auto simp: frame dest!: file_create_Inr)

lemma fs_write_Inr:
  assumes "fs_write p bs w = (Inr u, w')"
  shows "\<exists>e. files w' p = Some e \<and> contents e = bs \<and>
    mode e = (case files w p of None \<Rightarrow> create_mode w | Some old \<Rightarrow> mode old)"
proof -
  obtain v s where s: "file_create p w = (Inr v, s)" "through_writer p (write_all bs) s = (Inr u, w')"
    using assms by (auto simp: fs_write_def and_then_Inr_iff)
  from file_create_Inr [OF s(1)] obtain e where e: "files s p = Some e"
    "mode e = (case files w p of None \<Rightarrow> create_mode w | Some old \<Rightarrow> mode old)" by blast
  from through_writer_Inr [OF s(2) e(1)] obtain wr wr' where "sunk wr = []"
    "write_all bs wr = (Inr u, wr')" "files w' p = Some (e\<lparr>contents := sunk wr'\<rparr>)" by blast
  with e(2) write_all_Inr [of bs wr u wr'] show ?thesis by simp
qed

lemma set_permissions_Inr:
  assumes "set_permissions p m w = (Inr u, w')"
  shows "\<exists>e. files w p = Some e \<and> files w' = (files w)(p := Some (e\<lparr>mode := m\<rparr>))"
  using assms
  by (auto simp: set_permissions_def and_then_Inr_iff set_file_def dest!: entry_call_Inr
      split: option.splits)

lemma touches_fill_bytes [frame]: "touches S w (snd (fill_bytes n w))"
  by (simp add: fill_bytes_def touches_def)

section \<open>Worlds without failures\<close>

text \<open>A script of failures that has run out means no further failures.\<close>

definition calm :: "world \<Rightarrow> bool" where
  "calm w \<longleftrightarrow> faults w = [] \<and> wplans w = []"

lemma calm_updates [simp]:
  "calm (set_file p e w) = calm w" "calm (clear_file p w) = calm w"
  "calm (save_file p bs w) = calm w" "calm (snd (fill_bytes n w)) = calm w"
  by (simp_all add: calm_def set_file_def clear_file_def save_file_def fill_bytes_def split: option.splits)

lemma calm_calls [simp]:
  assumes "calm w"
  shows "syscall w = (Inr (), w)"
    and "path_exists p w = (files w p \<noteq> None, w)"
    and "new_writer w = (\<lparr>sunk = [], wplan = []\<rparr>, w)"
  using assms by (simp_all add: calm_def syscall_def path_exists_def new_writer_def)

lemma calm_lookup_file [simp]:
  "calm w \<Longrightarrow> lookup_file p w = (case files w p of None \<Rightarrow> (Inl NotFound, w) | Some e \<Rightarrow> (Inr e, w))"
  by (simp add: lookup_file_def)

lemma calm_entry_call [simp]:
  "calm w \<Longrightarrow> entry_call p w = (if file_name p = None then (Inl (OtherIo 21), w) else (Inr (), w))"
  by (simp add: entry_call_def)

lemma calm_file_create [simp]:
  "calm w \<Longrightarrow> file_name p = Some n \<Longrightarrow> file_create p w = (Inr (), set_file p \<lparr>contents = [],
     mode = (case files w p of None \<Rightarrow> create_mode w | Some e \<Rightarrow> mode e)\<rparr> w)"
  by (simp add: file_create_def)

lemma calm_through_writer [simp]:
  "calm w \<Longrightarrow> f \<lparr>sunk = [], wplan = []\<rparr> = (r, wr) \<Longrightarrow>
     through_writer p f w = (r, save_file p (sunk wr) w)"
  by (simp add: through_writer_def)

lemma calm_rename [simp]:
  "calm w \<Longrightarrow> file_name b = Some n \<Longrightarrow> files w a = Some e \<Longrightarrow>
     rename a b w = (Inr (), set_file b e (clear_file a w))"
  by (simp add: rename_def)

lemma calm_remove_file [simp]:
  "calm w \<Longrightarrow> file_name p = Some n \<Longrightarrow> files w p = Some e \<Longrightarrow> remove_file p w = (Inr (), clear_file p w)"
  by (simp add: remove_file_def)

lemma calm_set_permissions [simp]:
  "calm w \<Longrightarrow> file_name p = Some n \<Longrightarrow> files w p = Some e \<Longrightarrow>
     set_permissions p m w = (Inr (), set_file p (e\<lparr>mode := m\<rparr>) w)"
  by (simp add: set_permissions_def)

lemma files_updates [simp]:
  "files (set_file p e w) = (files w)(p := Some e)"
  "files (clear_file p w) = (files w)(p := None)"
  by (simp_all add: set_file_def clear_file_def)

lemma calm_save_file:
  "files w p = Some e \<Longrightarrow> save_file p bs w = set_file p (e\<lparr>contents := bs\<rparr>) w"
  by (simp add: save_file_def)

lemma calm_fs_write [simp]:
  "calm w \<Longrightarrow> file_name p = Some n \<Longrightarrow> fs_write p bs w =
     (Inr (), set_file p \<lparr>contents = bs,
        mode = (case files w p of None \<Rightarrow> create_mode w | Some e \<Rightarrow> mode e)\<rparr> w)"
  by (simp add: fs_write_def write_all_def calm_save_file) (simp add: set_file_def)

end
