(* ===== verification/Cry_Crypto.thy ===== *)
theory Cry_Crypto
  imports Cry_Prelude
begin

text \<open>
  The third-party crates the program calls, as one record of functions that every operation
  takes as an argument, with the documented behaviour the proofs rely on as predicates over
  that record, and a small concrete instance on which the predicates hold.
\<close>

section \<open>The external primitives\<close>

record argon_params =
  m_cost :: nat
  t_cost :: nat
  p_cost :: nat
  output_len :: "nat option"

text \<open>
  The arguments follow the calls: keys, nonces and salts are byte lists of the length the
  Rust array types fix; AEAD functions take key, nonce, message and associated data.
\<close>

record crypto =
  params_new :: "nat \<Rightarrow> nat \<Rightarrow> nat \<Rightarrow> nat option \<Rightarrow> string + argon_params"
  hash_password_into :: "argon_params \<Rightarrow> bytes \<Rightarrow> bytes \<Rightarrow> nat \<Rightarrow> string + bytes"
  hmac_sha256 :: "bytes \<Rightarrow> bytes \<Rightarrow> bytes"
  sha256 :: "bytes \<Rightarrow> bytes"
  aes256gcm_encrypt :: "bytes \<Rightarrow> bytes \<Rightarrow> bytes \<Rightarrow> bytes \<Rightarrow> bytes option"
  aes256gcm_decrypt :: "bytes \<Rightarrow> bytes \<Rightarrow> bytes \<Rightarrow> bytes \<Rightarrow> bytes option"
  chacha20poly1305_encrypt :: "bytes \<Rightarrow> bytes \<Rightarrow> bytes \<Rightarrow> bytes \<Rightarrow> bytes option"
  chacha20poly1305_decrypt :: "bytes \<Rightarrow> bytes \<Rightarrow> bytes \<Rightarrow> bytes \<Rightarrow> bytes option"
  ed25519_public :: "bytes \<Rightarrow> bytes"
  ed25519_point :: "bytes \<Rightarrow> string + bytes"
  ed25519_sign :: "bytes \<Rightarrow> bytes \<Rightarrow> bytes"
  ed25519_verify :: "bytes \<Rightarrow> bytes \<Rightarrow> bytes \<Rightarrow> bool"
  base64_encode :: "bytes \<Rightarrow> string"
  hex_encode :: "bytes \<Rightarrow> string"
  ssh_keypair_from_bytes :: "bytes \<Rightarrow> string + bytes"
  ssh_private_key_new :: "bytes \<Rightarrow> string \<Rightarrow> string + bytes"
  ssh_key_encrypt :: "(nat \<Rightarrow> byte) \<Rightarrow> bytes \<Rightarrow> string \<Rightarrow> string + bytes"
  ssh_key_to_openssh :: "bytes \<Rightarrow> string + string"
  rsa_generate :: "(nat \<Rightarrow> byte) \<Rightarrow> nat \<Rightarrow> string + bytes"
  rsa_private_pem :: "bytes \<Rightarrow> string + string"
  rsa_public_pem :: "bytes \<Rightarrow> string + string"

section \<open>Documented behaviour\<close>

text \<open>
  An AEAD accepts any message and associated data within its length limits, appends a
  16-byte tag, and decrypts what it encrypted. It is tidy when decryption recomputes the
  tag and compares, so that an accepted ciphertext is the encryption of its plaintext.
\<close>

type_synonym aead_fun = "bytes \<Rightarrow> bytes \<Rightarrow> bytes \<Rightarrow> bytes \<Rightarrow> bytes option"

definition aead_lawful :: "aead_fun \<Rightarrow> aead_fun \<Rightarrow> bool" where
  "aead_lawful enc dec \<longleftrightarrow>
    (\<forall>k n m a. length k = 32 \<longrightarrow> length n = 12 \<longrightarrow> length m \<le> 2 ^ 30 \<longrightarrow> length a \<le> 2 ^ 30 \<longrightarrow>
      (\<exists>c. enc k n m a = Some c \<and> length c = length m + 16 \<and> dec k n c a = Some m))"

definition aead_tidy :: "aead_fun \<Rightarrow> aead_fun \<Rightarrow> bool" where
  "aead_tidy enc dec \<longleftrightarrow> (\<forall>k n c m a. dec k n c a = Some m \<longrightarrow> enc k n m a = Some c)"

definition ciphers_lawful :: "crypto \<Rightarrow> bool" where
  "ciphers_lawful P \<longleftrightarrow>
     aead_lawful (aes256gcm_encrypt P) (aes256gcm_decrypt P) \<and>
     aead_lawful (chacha20poly1305_encrypt P) (chacha20poly1305_decrypt P)"

definition ciphers_tidy :: "crypto \<Rightarrow> bool" where
  "ciphers_tidy P \<longleftrightarrow>
     aead_tidy (aes256gcm_encrypt P) (aes256gcm_decrypt P) \<and>
     aead_tidy (chacha20poly1305_encrypt P) (chacha20poly1305_decrypt P)"

text \<open>Output lengths of the hash functions and of Argon2.\<close>

definition hashes_sized :: "crypto \<Rightarrow> bool" where
  "hashes_sized P \<longleftrightarrow>
     (\<forall>k m. length (hmac_sha256 P k m) = 32) \<and> (\<forall>m. length (sha256 P m) = 32)"

definition argon2_sized :: "crypto \<Rightarrow> bool" where
  "argon2_sized P \<longleftrightarrow>
     (\<forall>p pw s n key. hash_password_into P p pw s n = Inr key \<longrightarrow> length key = n)"

text \<open>
  Ed25519: keys and signatures have fixed lengths, the encoding of a public key is accepted,
  and what a key signs its public key verifies.
\<close>

definition ed25519_lawful :: "crypto \<Rightarrow> bool" where
  "ed25519_lawful P \<longleftrightarrow>
     (\<forall>seed. length seed = 32 \<longrightarrow>
        length (ed25519_public P seed) = 32 \<and>
        ed25519_point P (ed25519_public P seed) = Inr (ed25519_public P seed) \<and>
        (\<forall>m. length (ed25519_sign P seed m) = 64 \<and>
             ed25519_verify P (ed25519_public P seed) m (ed25519_sign P seed m)))"

lemma aead_lawfulD:
  assumes "aead_lawful enc dec" "length k = 32" "length n = 12" "length m \<le> 2 ^ 30"
    and "length a \<le> 2 ^ 30"
  shows "\<exists>c. enc k n m a = Some c \<and> length c = length m + 16 \<and> dec k n c a = Some m"
  using assms unfolding aead_lawful_def by blast

section \<open>A concrete instance\<close>

text \<open>
  Short, computable functions with the documented interface behaviour and no cryptographic
  strength. The witnesses of the theorems run on them.
\<close>

definition pad :: "nat \<Rightarrow> bytes \<Rightarrow> bytes" where
  "pad n bs = take n (bs @ replicate n 0)"

lemma length_pad [simp]: "length (pad n bs) = n"
  by (simp add: pad_def)

definition demo_tag :: "bytes \<Rightarrow> bytes \<Rightarrow> bytes \<Rightarrow> bytes" where
  "demo_tag k n a = pad 16 (rev a @ n @ k)"

definition demo_encrypt :: aead_fun where
  "demo_encrypt k n m a = Some (m @ demo_tag k n a)"

definition demo_decrypt :: aead_fun where
  "demo_decrypt k n c a =
    (if 16 \<le> length c \<and> drop (length c - 16) c = demo_tag k n a
     then Some (take (length c - 16) c) else None)"

definition demo_crypto :: crypto where
  "demo_crypto =
    \<lparr>params_new = (\<lambda>m t p out. Inr \<lparr>m_cost = m, t_cost = t, p_cost = p, output_len = out\<rparr>),
     hash_password_into = (\<lambda>p pw s n. Inr (pad n (rev pw @ s))),
     hmac_sha256 = (\<lambda>k m. pad 32 (rev m @ k)),
     sha256 = pad 32,
     aes256gcm_encrypt = demo_encrypt,
     aes256gcm_decrypt = demo_decrypt,
     chacha20poly1305_encrypt = demo_encrypt,
     chacha20poly1305_decrypt = demo_decrypt,
     ed25519_public = pad 32,
     ed25519_point = (\<lambda>bs. Inr bs),
     ed25519_sign = (\<lambda>seed m. pad 64 (pad 32 seed @ m)),
     ed25519_verify = (\<lambda>pk m s. s = pad 64 (pad 32 pk @ m)),
     base64_encode = (\<lambda>bs. map (\<lambda>b. CHR ''A'') bs),
     hex_encode = (\<lambda>bs. concat (map show_hex2 bs)),
     ssh_keypair_from_bytes = (\<lambda>bs. Inr bs),
     ssh_private_key_new = (\<lambda>kp comment. Inr kp),
     ssh_key_encrypt = (\<lambda>rng key pass. Inr (rev key)),
     ssh_key_to_openssh = (\<lambda>key. Inr (concat (map show_hex2 key))),
     rsa_generate = (\<lambda>rng bits. Inr [rng 0, rng 1]),
     rsa_private_pem = (\<lambda>key. Inr (concat (map show_hex2 key))),
     rsa_public_pem = (\<lambda>key. Inr (concat (map show_hex2 (rev key))))\<rparr>"

lemma length_demo_tag [simp]: "length (demo_tag k n a) = 16"
  by (simp add: demo_tag_def)

lemma demo_aead_lawful: "aead_lawful demo_encrypt demo_decrypt"
  by (simp add: aead_lawful_def demo_encrypt_def demo_decrypt_def)

lemma demo_aead_tidy: "aead_tidy demo_encrypt demo_decrypt"
  by (auto simp: aead_tidy_def demo_encrypt_def demo_decrypt_def split: if_splits)
    (metis append_take_drop_id)

lemma demo_ciphers_lawful: "ciphers_lawful demo_crypto"
  by (simp add: ciphers_lawful_def demo_crypto_def demo_aead_lawful)

lemma demo_ciphers_tidy: "ciphers_tidy demo_crypto"
  by (simp add: ciphers_tidy_def demo_crypto_def demo_aead_tidy)

lemma demo_hashes_sized: "hashes_sized demo_crypto"
  by (simp add: hashes_sized_def demo_crypto_def)

lemma demo_argon2_sized: "argon2_sized demo_crypto"
  by (auto simp: argon2_sized_def demo_crypto_def)

lemma pad_full: "length bs = n \<Longrightarrow> pad n bs = bs"
  by (simp add: pad_def)

lemma demo_ed25519_lawful: "ed25519_lawful demo_crypto"
  by (simp add: ed25519_lawful_def demo_crypto_def pad_full)

lemmas demo_laws = demo_ciphers_lawful demo_ciphers_tidy demo_hashes_sized
  demo_argon2_sized demo_ed25519_lawful

end
