(* ===== verification/Cry_Header.thy ===== *)
theory Cry_Header
  imports Cry_Io Cry_Crypto
begin

text \<open>
  The authenticated file header, \<open>src/header.rs\<close>: its fields and wire layout, the HMAC
  sub-key, writing and reading. The reader is proved equal to a table of offsets over the
  bytes of the stream, and to accept exactly the images of well-formed headers.
\<close>

section \<open>Constants and the algorithm identifier\<close>

definition MAGIC :: bytes where
  "MAGIC = [0x43, 0x52, 0x59, 0x02]"

definition SALT_LEN :: nat where "SALT_LEN = 16"
definition NONCE_LEN :: nat where "NONCE_LEN = 12"
definition HMAC_LEN :: nat where "HMAC_LEN = 32"
definition HEADER_LEN :: nat where "HEADER_LEN = 4 + 1 + SALT_LEN + NONCE_LEN + 8 + HMAC_LEN"

definition HMAC_INFO :: bytes where
  "HMAC_INFO = str_bytes ''cry-header-hmac-v2''"

lemmas header_consts = SALT_LEN_def NONCE_LEN_def HMAC_LEN_def HEADER_LEN_def

lemma length_MAGIC [simp, wire_length]: "length MAGIC = 4"
  by (simp add: MAGIC_def)

datatype algorithm = Aes256Gcm | ChaCha20Poly1305

fun algo_byte :: "algorithm \<Rightarrow> byte" where
  "algo_byte Aes256Gcm = 0x01"
| "algo_byte ChaCha20Poly1305 = 0x02"

definition from_byte :: "byte \<Rightarrow> cry_error + algorithm" where
  "from_byte b =
    (if b = 0x01 then Inr Aes256Gcm
     else if b = 0x02 then Inr ChaCha20Poly1305
     else Inl (InvalidFormat (''Unknown algorithm identifier 0x'' @ show_hex2 b @ '' '' @ em_dash @
       '' was this file created with a newer version of cry?'')))"

fun display_algorithm :: "algorithm \<Rightarrow> string" where
  "display_algorithm Aes256Gcm = ''AES-256-GCM''"
| "display_algorithm ChaCha20Poly1305 = ''ChaCha20-Poly1305''"

instantiation algorithm :: linorder
begin

definition less_eq_algorithm :: "algorithm \<Rightarrow> algorithm \<Rightarrow> bool" where
  "a \<le> b \<longleftrightarrow> algo_byte a \<le> algo_byte b"

definition less_algorithm :: "algorithm \<Rightarrow> algorithm \<Rightarrow> bool" where
  "a < b \<longleftrightarrow> algo_byte a < algo_byte b"

instance
proof
  fix a b c :: algorithm
  show "(a < b) = (a \<le> b \<and> \<not> b \<le> a)"
    by (auto simp: less_eq_algorithm_def less_algorithm_def)
  show "a \<le> a" by (simp add: less_eq_algorithm_def)
  show "a \<le> b \<Longrightarrow> b \<le> c \<Longrightarrow> a \<le> c" by (simp add: less_eq_algorithm_def)
  show "a \<le> b \<Longrightarrow> b \<le> a \<Longrightarrow> a = b"
    by (cases a; cases b) (simp_all add: less_eq_algorithm_def word_le_nat_alt)
  show "a \<le> b \<or> b \<le> a" by (auto simp: less_eq_algorithm_def)
qed

end

lemma from_byte_algo_byte [simp]: "from_byte (algo_byte a) = Inr a"
  by (cases a) (simp_all add: from_byte_def)

lemma from_byte_Inr: "from_byte b = Inr a \<Longrightarrow> b = algo_byte a"
  by (auto simp: from_byte_def split: if_splits)

interpretation algo_codec: partial_codec "\<lambda>a. [algo_byte a]"
  "\<lambda>bs. case bs of [b] \<Rightarrow> (case from_byte b of Inr a \<Rightarrow> Some a | Inl e \<Rightarrow> None) | _ \<Rightarrow> None"
  by unfold_locales simp

section \<open>The header\<close>

record header =
  hdr_algo :: algorithm
  hdr_salt :: bytes
  hdr_nonce :: bytes
  hdr_chunk_count :: u64

text \<open>The lengths the Rust array types fix.\<close>

definition header_wf :: "header \<Rightarrow> bool" where
  "header_wf h \<longleftrightarrow> length (hdr_salt h) = SALT_LEN \<and> length (hdr_nonce h) = NONCE_LEN"

definition pre_hmac_bytes :: "header \<Rightarrow> bytes" where
  "pre_hmac_bytes h =
     MAGIC @ [algo_byte (hdr_algo h)] @ hdr_salt h @ hdr_nonce h @
     u64_to_be_bytes (hdr_chunk_count h)"

definition derive_hmac_subkey :: "crypto \<Rightarrow> bytes \<Rightarrow> bytes" where
  "derive_hmac_subkey P master_key = hmac_sha256 P master_key (HMAC_INFO @ [0x01])"

definition compute_hmac :: "crypto \<Rightarrow> bytes \<Rightarrow> bytes \<Rightarrow> bytes" where
  "compute_hmac P pre_hmac master_key =
     hmac_sha256 P (derive_hmac_subkey P master_key) pre_hmac"

definition header_write :: "crypto \<Rightarrow> header \<Rightarrow> bytes \<Rightarrow> writer \<Rightarrow> (cry_error + unit) \<times> writer" where
  "header_write P h key w =
    (let pre_hmac = pre_hmac_bytes h;
         hmac = compute_hmac P pre_hmac key
     in and_then (map_err Io (write_all pre_hmac w)) (\<lambda>_ w.
        and_then (map_err Io (write_all hmac w)) (\<lambda>_ w.
        (Inr (), w))))"

text \<open>The \<open>{:?}\<close> text of a byte array.\<close>

fun debug_items :: "bytes \<Rightarrow> string" where
  "debug_items [] = []"
| "debug_items [b] = show_nat (unat b)"
| "debug_items (b # bs) = show_nat (unat b) @ '', '' @ debug_items bs"

definition debug_bytes :: "bytes \<Rightarrow> string" where
  "debug_bytes bs = ''['' @ debug_items bs @ '']''"

definition bad_magic :: "bytes \<Rightarrow> cry_error" where
  "bad_magic magic = InvalidFormat (''Not a cry v2 encrypted file (bad magic '' @
     debug_bytes magic @ ''). Files from cry v0.1 are not compatible '' @ em_dash @
     '' re-encrypt with the new version.'')"

definition read_field :: "string \<Rightarrow> nat \<Rightarrow> reader \<Rightarrow> (cry_error + bytes) \<times> reader" where
  "read_field what n r =
     map_err (\<lambda>_. InvalidFormat (''Failed to read '' @ what)) (read_exact n r)"

definition header_read :: "crypto \<Rightarrow> bytes \<Rightarrow> reader \<Rightarrow> (cry_error + header) \<times> reader" where
  "header_read P key r =
     and_then (read_field ''magic bytes'' 4 r) (\<lambda>magic r.
     if magic \<noteq> MAGIC then (Inl (bad_magic magic), r) else
     and_then (read_field ''algorithm byte'' 1 r) (\<lambda>algo_buf r.
     and_then (from_byte (algo_buf ! 0), r) (\<lambda>algo r.
     and_then (read_field ''salt'' SALT_LEN r) (\<lambda>salt r.
     and_then (read_field ''nonce'' NONCE_LEN r) (\<lambda>nonce r.
     and_then (read_field ''chunk count'' 8 r) (\<lambda>count_buf r.
     let chunk_count = u64_from_be_bytes count_buf in
     and_then (read_field ''header HMAC'' HMAC_LEN r) (\<lambda>stored_hmac r.
     let header = \<lparr>hdr_algo = algo, hdr_salt = salt, hdr_nonce = nonce,
                   hdr_chunk_count = chunk_count\<rparr>;
         pre_hmac = pre_hmac_bytes header;
         sub_key = derive_hmac_subkey P key
     in if hmac_sha256 P sub_key pre_hmac \<noteq> stored_hmac then (Inl HeaderTampered, r)
        else (Inr header, r))))))))"

section \<open>The wire image and the table of offsets\<close>

definition header_image :: "crypto \<Rightarrow> bytes \<Rightarrow> header \<Rightarrow> bytes" where
  "header_image P key h = pre_hmac_bytes h @ compute_hmac P (pre_hmac_bytes h) key"

lemma length_pre_hmac_bytes [simp, wire_length]: "header_wf h \<Longrightarrow> length (pre_hmac_bytes h) = 41"
  by (simp add: pre_hmac_bytes_def header_wf_def header_consts)

lemma length_compute_hmac [simp, wire_length]:
  "hashes_sized P \<Longrightarrow> length (compute_hmac P bs key) = 32"
  by (simp add: hashes_sized_def compute_hmac_def)

lemma length_header_image:
  "hashes_sized P \<Longrightarrow> header_wf h \<Longrightarrow> length (header_image P key h) = HEADER_LEN"
  by (simp add: header_image_def header_consts)

text \<open>
  The layout at the top of \<open>src/header.rs\<close> as a function of the bytes: which error a short or
  foreign file gives, and which bytes each field and the HMAC cover.
\<close>

definition header_parse :: "crypto \<Rightarrow> bytes \<Rightarrow> bytes \<Rightarrow> cry_error + header" where
  "header_parse P key bs =
    (if length bs < 4 then Inl (InvalidFormat ''Failed to read magic bytes'')
     else if take 4 bs \<noteq> MAGIC then Inl (bad_magic (take 4 bs))
     else if length bs < 5 then Inl (InvalidFormat ''Failed to read algorithm byte'')
     else (case from_byte (bs ! 4) of
       Inl e \<Rightarrow> Inl e
     | Inr algo \<Rightarrow>
         if length bs < 21 then Inl (InvalidFormat ''Failed to read salt'')
         else if length bs < 33 then Inl (InvalidFormat ''Failed to read nonce'')
         else if length bs < 41 then Inl (InvalidFormat ''Failed to read chunk count'')
         else if length bs < 73 then Inl (InvalidFormat ''Failed to read header HMAC'')
         else if compute_hmac P (take 41 bs) key \<noteq> take 32 (drop 41 bs) then Inl HeaderTampered
         else Inr \<lparr>hdr_algo = algo, hdr_salt = take 16 (drop 5 bs),
                   hdr_nonce = take 12 (drop 21 bs),
                   hdr_chunk_count = u64_from_be_bytes (take 8 (drop 33 bs))\<rparr>))"

definition field_at :: "string \<Rightarrow> nat \<Rightarrow> reader \<Rightarrow> reader \<Rightarrow> bool" where
  "field_at what n r r' \<longleftrightarrow> clean r' \<and> pending r' = drop n (pending r) \<and>
     read_field what n r =
       (if n \<le> length (pending r) then Inr (take n (pending r))
        else Inl (InvalidFormat (''Failed to read '' @ what)), r')"

lemma read_field_clean: "clean r \<Longrightarrow> \<exists>r'. field_at what n r r'"
  using rx.rx_enough [of r n] rx.rx_short [of r n]
  by (cases "n \<le> length (pending r)") (auto simp: read_field_def field_at_def)

lemma field_at_clean: "field_at what n r r' \<Longrightarrow> clean r'"
  by (simp add: field_at_def)

text \<open>Serialising the parsed fields gives back the 41 bytes they were read from.\<close>

lemma pre_hmac_bytes_parsed:
  assumes "41 \<le> length bs" and "take 4 bs = MAGIC" and "from_byte (bs ! 4) = Inr algo"
  shows "pre_hmac_bytes \<lparr>hdr_algo = algo, hdr_salt = take 16 (drop 5 bs),
           hdr_nonce = take 12 (drop 21 bs),
           hdr_chunk_count = u64_from_be_bytes (take 8 (drop 33 bs))\<rparr> = take 41 bs"
proof -
  have "take 41 bs = take 4 bs @ [bs ! 4] @ take 16 (drop 5 bs) @ take 12 (drop 21 bs) @
      take 8 (drop 33 bs)"
  proof -
    have "take 41 bs = take 4 bs @ take 1 (drop 4 bs) @ take 16 (drop 5 bs) @
        take 12 (drop 21 bs) @ take 8 (drop 33 bs)"
      using take_add [of 4 1 bs] take_add [of 5 16 bs] take_add [of 21 12 bs]
        take_add [of 33 8 bs] by simp
    also have "take 1 (drop 4 bs) = [bs ! 4]"
      using assms(1) by (simp add: take_Suc hd_drop_conv_nth)
    finally show ?thesis .
  qed
  then show ?thesis
    using assms be64.enc_dec_id [of "take 8 (drop 33 bs)"]
    by (simp add: pre_hmac_bytes_def from_byte_Inr [OF assms(3)])
qed

text \<open>The six reads of the parser, each starting where the one before stopped.\<close>

lemma header_reads:
  assumes "clean r"
  obtains r1 r2 r3 r4 r5 r6 where
    "field_at ''magic bytes'' 4 r r1" "field_at ''algorithm byte'' 1 r1 r2"
    "field_at ''salt'' 16 r2 r3" "field_at ''nonce'' 12 r3 r4"
    "field_at ''chunk count'' 8 r4 r5" "field_at ''header HMAC'' 32 r5 r6"
  using assms by (meson read_field_clean field_at_clean)

lemma header_read_parse:
  assumes "clean r"
  obtains r' where "header_read P key r = (header_parse P key (pending r), r')"
    and "clean r'"
    and "\<And>h. header_parse P key (pending r) = Inr h \<Longrightarrow> pending r' = drop HEADER_LEN (pending r)"
proof -
  let ?bs = "pending r"
  obtain r1 r2 r3 r4 r5 r6 where fields:
    "field_at ''magic bytes'' 4 r r1" "field_at ''algorithm byte'' 1 r1 r2"
    "field_at ''salt'' 16 r2 r3" "field_at ''nonce'' 12 r3 r4"
    "field_at ''chunk count'' 8 r4 r5" "field_at ''header HMAC'' 32 r5 r6"
    using header_reads [OF assms] .
  note steps = fields [unfolded field_at_def]
  note defs = header_read_def header_parse_def header_consts compute_hmac_def Let_def
  obtain res s where run: "header_read P key r = (res, s)" by fastforce
  consider "length ?bs < 4" | "4 \<le> length ?bs" "take 4 ?bs \<noteq> MAGIC"
    | "take 4 ?bs = MAGIC" "length ?bs = 4"
    | e where "take 4 ?bs = MAGIC" "5 \<le> length ?bs" "from_byte (?bs ! 4) = Inl e"
    | a where "take 4 ?bs = MAGIC" "5 \<le> length ?bs" "from_byte (?bs ! 4) = Inr a" "length ?bs < 21"
    | a where "take 4 ?bs = MAGIC" "21 \<le> length ?bs" "from_byte (?bs ! 4) = Inr a" "length ?bs < 33"
    | a where "take 4 ?bs = MAGIC" "33 \<le> length ?bs" "from_byte (?bs ! 4) = Inr a" "length ?bs < 41"
    | a where "take 4 ?bs = MAGIC" "41 \<le> length ?bs" "from_byte (?bs ! 4) = Inr a" "length ?bs < 73"
    | a where "take 4 ?bs = MAGIC" "73 \<le> length ?bs" "from_byte (?bs ! 4) = Inr a"
    by (cases "from_byte (?bs ! 4)") (fastforce simp: not_less)+
  then have "res = header_parse P key ?bs \<and> s \<in> {r1, r2, r3, r4, r5, r6} \<and>
      ((\<exists>h. header_parse P key ?bs = Inr h) \<longrightarrow> s = r6)"
  proof cases
    case 9
    with pre_hmac_bytes_parsed [of ?bs a] run show ?thesis
      by (auto simp: defs steps simp del: One_nat_def split: if_splits)
  qed (use run in \<open>auto simp: defs steps simp del: One_nat_def split: if_splits\<close>)
  moreover have "list_all clean [r1, r2, r3, r4, r5, r6]" "pending r6 = drop HEADER_LEN ?bs"
    by (simp_all add: steps header_consts)
  ultimately show ?thesis using run by (intro that [of s]) auto
qed

text \<open>Well-formed fields with any tag behind them: the tag decides.\<close>

lemma header_parse_tag:
  assumes wf: "header_wf h" and tag: "length tag = 32"
  shows "header_parse P key (pre_hmac_bytes h @ tag @ rest) =
    (if compute_hmac P (pre_hmac_bytes h) key = tag then Inr h else Inl HeaderTampered)"
proof -
  let ?bs = "pre_hmac_bytes h @ tag @ rest"
  have pre: "length (pre_hmac_bytes h) = 41" using wf by simp
  have layout: "?bs = MAGIC @ [algo_byte (hdr_algo h)] @ hdr_salt h @ hdr_nonce h @
      u64_to_be_bytes (hdr_chunk_count h) @ tag @ rest"
    by (simp add: pre_hmac_bytes_def)
  have "take 41 ?bs = pre_hmac_bytes h" "take 32 (drop 41 ?bs) = tag" "73 \<le> length ?bs"
    using pre tag by simp_all
  moreover have "take 4 ?bs = MAGIC" "?bs ! 4 = algo_byte (hdr_algo h)"
    "take 16 (drop 5 ?bs) = hdr_salt h" "take 12 (drop 21 ?bs) = hdr_nonce h"
    "take 8 (drop 33 ?bs) = u64_to_be_bytes (hdr_chunk_count h)"
    using wf unfolding layout by (simp_all add: header_wf_def header_consts nth_append)
  ultimately show ?thesis by (simp add: header_parse_def be64.dec_enc_id)
qed

text \<open>An image read under any key.\<close>

lemma header_parse_any_key:
  assumes "header_wf h" and "hashes_sized P"
  shows "header_parse P key' (header_image P key h @ rest) =
    (if compute_hmac P (pre_hmac_bytes h) key' = compute_hmac P (pre_hmac_bytes h) key
     then Inr h else Inl HeaderTampered)"
  using header_parse_tag [OF assms(1), of "compute_hmac P (pre_hmac_bytes h) key" P key' rest] assms(2)
  by (simp add: header_image_def)

lemma header_parse_image:
  "header_wf h \<Longrightarrow> hashes_sized P \<Longrightarrow> header_parse P key (header_image P key h @ rest) = Inr h"
  by (simp add: header_parse_any_key)

lemma header_parse_Inr:
  assumes "header_parse P key bs = Inr h"
  shows "header_wf h \<and> take HEADER_LEN bs = header_image P key h \<and> HEADER_LEN \<le> length bs"
proof -
  have len: "73 \<le> length bs" and magic: "take 4 bs = MAGIC"
    and mac: "compute_hmac P (take 41 bs) key = take 32 (drop 41 bs)"
    using assms by (auto simp: header_parse_def split: if_splits sum.splits)
  then obtain algo where algo: "from_byte (bs ! 4) = Inr algo"
    and h: "h = \<lparr>hdr_algo = algo, hdr_salt = take 16 (drop 5 bs),
      hdr_nonce = take 12 (drop 21 bs),
      hdr_chunk_count = u64_from_be_bytes (take 8 (drop 33 bs))\<rparr>"
    using assms by (auto simp: header_parse_def split: sum.splits)
  have "pre_hmac_bytes h = take 41 bs"
    using pre_hmac_bytes_parsed [OF _ magic algo] len h by simp
  then have "header_image P key h = take 73 bs"
    using mac take_add [of 41 32 bs] by (simp add: header_image_def)
  with h len show ?thesis by (simp add: header_wf_def header_consts)
qed

lemma header_write_sunk:
  "header_write P h key w = (Inr u, w') \<Longrightarrow> sunk w' = sunk w @ header_image P key h"
  by (auto simp: header_write_def Let_def result_iffs header_image_def dest!: write_all_Inr)

lemma header_write_willing:
  assumes "willing w"
  shows "\<exists>w'. header_write P h key w = (Inr (), w') \<and> willing w' \<and>
    sunk w' = sunk w @ header_image P key h"
proof -
  obtain w1 where w1: "write_all (pre_hmac_bytes h) w = (Inr (), w1)" "willing w1"
      "sunk w1 = sunk w @ pre_hmac_bytes h"
    using write_all_willing [OF assms] by blast
  obtain w2 where w2: "write_all (compute_hmac P (pre_hmac_bytes h) key) w1 = (Inr (), w2)"
      "willing w2" "sunk w2 = sunk w1 @ compute_hmac P (pre_hmac_bytes h) key"
    using write_all_willing [OF w1(2)] by blast
  show ?thesis
    using w1 w2 by (simp add: header_write_def Let_def header_image_def)
qed

lemma header_read_image:
  assumes "clean r" "header_wf h" "hashes_sized P" "pending r = header_image P key h @ rest"
  shows "\<exists>r'. header_read P key r = (Inr h, r') \<and> clean r' \<and> pending r' = rest"
proof -
  from header_read_parse [OF assms(1), of P key] obtain r' where
    r': "header_read P key r = (header_parse P key (pending r), r')" "clean r'"
      "\<And>h. header_parse P key (pending r) = Inr h \<Longrightarrow> pending r' = drop HEADER_LEN (pending r)"
    by blast
  have parse: "header_parse P key (pending r) = Inr h"
    using assms header_parse_image by simp
  with r' assms have "pending r' = rest" by (simp add: length_header_image)
  with r' parse show ?thesis by simp
qed

section \<open>HKDF-Expand\<close>

text \<open>
  RFC 5869, section 2.3, over HMAC-SHA256: \<open>T(0)\<close> is empty,
  \<open>T(i+1) = HMAC(PRK, T(i) || info || i+1)\<close>, and the output is the first \<open>L\<close> bytes of
  \<open>T(1) || T(2) || \<dots>\<close>.
\<close>

fun hkdf_T :: "crypto \<Rightarrow> bytes \<Rightarrow> bytes \<Rightarrow> nat \<Rightarrow> bytes" where
  "hkdf_T P prk info 0 = []"
| "hkdf_T P prk info (Suc i) = hmac_sha256 P prk (hkdf_T P prk info i @ info @ [word_of_nat (Suc i)])"

definition hkdf_expand :: "crypto \<Rightarrow> bytes \<Rightarrow> bytes \<Rightarrow> nat \<Rightarrow> bytes" where
  "hkdf_expand P prk info L =
     take L (concat (map (hkdf_T P prk info) [1..<Suc ((L + 31) div 32)]))"

section \<open>Properties\<close>

definition sample_header :: header where
  "sample_header = \<lparr>hdr_algo = ChaCha20Poly1305, hdr_salt = replicate 16 7,
     hdr_nonce = replicate 12 9, hdr_chunk_count = 3\<rparr>"

lemma sample_header_wf: "header_wf sample_header"
  by (simp add: header_wf_def sample_header_def header_consts)

text \<open>C8. A header written to a stream that takes every write occupies exactly 73 bytes, and
  reading those bytes back with the same key, however the stream cuts them and whatever follows
  them, gives the same header and stops right behind it.\<close>

theorem header_roundtrip:
  assumes "header_wf h" and "hashes_sized P" and "willing w"
    and "header_write P h key w = (res, w')"
    and "clean r" and "pending r = drop (length (sunk w)) (sunk w') @ rest"
  shows "res = Inr () \<and> length (sunk w') = length (sunk w) + HEADER_LEN \<and>
    (\<exists>r'. header_read P key r = (Inr h, r') \<and> pending r' = rest)"
proof -
  obtain w2 where w2: "header_write P h key w = (Inr (), w2)"
      "sunk w2 = sunk w @ header_image P key h"
    using header_write_willing [OF assms(3)] by blast
  with assms(4) have w': "res = Inr ()" "sunk w' = sunk w @ header_image P key h" by auto
  then obtain r' where "header_read P key r = (Inr h, r')" "pending r' = rest"
    using header_read_image [OF assms(5,1,2), of key rest] assms(6) by auto
  with w' show ?thesis using assms(1,2) by (simp add: length_header_image)
qed

theorem header_roundtrip_witness:
  "\<exists>r'. header_read demo_crypto (replicate 32 1)
     [Data (take 10 (header_image demo_crypto (replicate 32 1) sample_header)), Fault Interrupted,
      Data (drop 10 (header_image demo_crypto (replicate 32 1) sample_header) @ [5])]
     = (Inr sample_header, r') \<and> pending r' = [5]"
proof -
  let ?img = "header_image demo_crypto (replicate 32 1) sample_header"
  let ?w = "\<lparr>sunk = [], wplan = []\<rparr>"
  have "willing ?w" by (simp add: willing_def)
  then obtain w' where w': "header_write demo_crypto sample_header (replicate 32 1) ?w = (Inr (), w')"
      "sunk w' = ?img"
    using header_write_willing [of ?w demo_crypto sample_header "replicate 32 1"] by auto
  have len: "length ?img = 73"
    using length_header_image [OF demo_hashes_sized sample_header_wf] by (simp add: header_consts)
  then have "?img \<noteq> []" by auto
  then have "clean [Data (take 10 ?img), Fault Interrupted, Data (drop 10 ?img @ [5])]"
    by simp
  from header_roundtrip [OF sample_header_wf demo_hashes_sized \<open>willing ?w\<close> w'(1) this,
      where rest = "[5]"] w'(2)
  show ?thesis by simp
qed

text \<open>C30. Over every cleanly delivered stream the six sequential reads, the checks between
  them and the HMAC comparison amount to one table of offsets: each truncation point, a foreign
  magic number, an unknown algorithm byte and a wrong HMAC give the error of the table, and the
  HMAC that decides is the one over the first 41 bytes of the stream.\<close>

theorem header_read_is_offset_table:
  assumes "clean r"
  shows "fst (header_read P key r) = header_parse P key (pending r)"
  using header_read_parse [OF assms, of P key] by (metis fst_conv)

theorem header_read_is_offset_table_witness:
  "fst (header_read demo_crypto [] [Data (MAGIC @ [0x03]), Fault Interrupted, Data [1, 2]]) =
     Inl (InvalidFormat (''Unknown algorithm identifier 0x03 '' @ em_dash @
       '' was this file created with a newer version of cry?''))"
proof -
  have "clean [Data (MAGIC @ [0x03]), Fault Interrupted, Data [1, 2]]" by simp
  moreover have "show_hex2 3 = ''03''" by code_simp
  ultimately show ?thesis
    using header_read_is_offset_table [of _ demo_crypto "[]"]
    by (simp add: header_parse_def MAGIC_def from_byte_def)
qed

text \<open>C7. Reading accepts nothing but images: when the parser returns a header, the stream
  began with exactly the bytes that writing this header with this key produces, and the parser
  has consumed those and no more. Well-formed fields followed by any tag but theirs under this
  key are reported as a tampered header.\<close>

theorem header_read_accepts_only_images:
  assumes "clean r"
  shows "(\<forall>h r'. header_read P key r = (Inr h, r') \<longrightarrow>
      header_wf h \<and> pending r = header_image P key h @ pending r') \<and>
    (\<forall>h tag rest. header_wf h \<longrightarrow> length tag = 32 \<longrightarrow> pending r = pre_hmac_bytes h @ tag @ rest \<longrightarrow>
      tag \<noteq> compute_hmac P (pre_hmac_bytes h) key \<longrightarrow> fst (header_read P key r) = Inl HeaderTampered)"
proof (intro conjI allI impI)
  fix h r'
  assume run: "header_read P key r = (Inr h, r')"
  from header_read_parse [OF assms, of P key] run
  have parse: "header_parse P key (pending r) = Inr h" and rest: "pending r' = drop HEADER_LEN (pending r)"
    by (metis Pair_inject)+
  from header_parse_Inr [OF parse] show "header_wf h" by blast
  from header_parse_Inr [OF parse] rest show "pending r = header_image P key h @ pending r'"
    by (metis append_take_drop_id)
next
  fix h tag rest
  assume "header_wf h" "length tag = 32" "pending r = pre_hmac_bytes h @ tag @ rest"
    and "tag \<noteq> compute_hmac P (pre_hmac_bytes h) key"
  then have "header_parse P key (pending r) = Inl HeaderTampered" using header_parse_tag by simp
  with header_read_parse [OF assms, of P key] show "fst (header_read P key r) = Inl HeaderTampered"
    by (metis fst_conv)
qed

theorem header_read_accepts_only_images_witness:
  "(\<exists>r'. header_read demo_crypto [2]
     [Data (header_image demo_crypto [2] sample_header @ [8, 8])] = (Inr sample_header, r') \<and>
     pending r' = [8, 8]) \<and>
   fst (header_read demo_crypto [2] [Data (pre_hmac_bytes sample_header @
     map (\<lambda>b. b + 1) (compute_hmac demo_crypto (pre_hmac_bytes sample_header) [2]))]) = Inl HeaderTampered"
proof
  let ?r = "[Data (header_image demo_crypto [2] sample_header @ [8, 8])]"
  have "clean ?r" by simp
  then obtain r' where r': "header_read demo_crypto [2] ?r = (Inr sample_header, r')"
    using header_read_image [OF _ sample_header_wf demo_hashes_sized, of ?r "[2]" "[8, 8]"] by auto
  from header_read_accepts_only_images [OF \<open>clean ?r\<close>] r'
  show "\<exists>r'. header_read demo_crypto [2] ?r = (Inr sample_header, r') \<and> pending r' = [8, 8]" by fastforce
next
  let ?tag = "compute_hmac demo_crypto (pre_hmac_bytes sample_header) [2]"
  let ?r = "[Data (pre_hmac_bytes sample_header @ map (\<lambda>b. b + 1) ?tag)]"
  have len: "length ?tag = 32" using demo_hashes_sized by simp
  have "length (pre_hmac_bytes sample_header) = 41" using sample_header_wf by simp
  then have "clean ?r" by (auto simp flip: length_greater_0_conv)
  have tag: "map (\<lambda>b. b + 1) ?tag \<noteq> ?tag"
  proof
    assume "map (\<lambda>b. b + 1) ?tag = ?tag"
    then have "map (\<lambda>b. b + 1) ?tag ! 0 = ?tag ! 0" by simp
    with len show False by simp
  qed
  show "fst (header_read demo_crypto [2] ?r) = Inl HeaderTampered"
    by (rule conjunct2 [OF header_read_accepts_only_images [OF \<open>clean ?r\<close>], rule_format,
        OF sample_header_wf _ _ tag, of "[]"]) (simp_all add: len)
qed

text \<open>The header sub-key is HKDF-Expand (RFC 5869) of the master key with the
  \<open>cry-header-hmac-v2\<close> tag and 32 bytes of output.\<close>

lemma hmac_subkey_is_hkdf_expand:
  assumes "hashes_sized P"
  shows "derive_hmac_subkey P master_key = hkdf_expand P master_key HMAC_INFO 32"
  using assms by (simp add: derive_hmac_subkey_def hkdf_expand_def hashes_sized_def)

end
