(* ===== verification/Cry_Kdf.thy ===== *)
theory Cry_Kdf
  imports Cry_Error Cry_Crypto
begin

text \<open>Passphrase key derivation, \<open>src/kdf.rs\<close>.\<close>

definition KEY_LEN :: nat where
  "KEY_LEN = 32"

definition derive_key :: "crypto \<Rightarrow> bytes \<Rightarrow> bytes \<Rightarrow> cry_error + bytes" where
  "derive_key P passphrase salt =
    (case params_new P 65536 3 1 (Some KEY_LEN) of
       Inl e \<Rightarrow> Inl (Kdf e)
     | Inr params \<Rightarrow>
         (case hash_password_into P params passphrase salt KEY_LEN of
            Inl e \<Rightarrow> Inl (Kdf e)
          | Inr key \<Rightarrow> Inr key))"

lemma derive_key_length:
  "argon2_sized P \<Longrightarrow> derive_key P pass salt = Inr key \<Longrightarrow> length key = KEY_LEN"
  by (auto simp: derive_key_def argon2_sized_def split: sum.splits)

lemma derive_key_error: "derive_key P pass salt = Inl e \<Longrightarrow> \<exists>m. e = Kdf m"
  by (auto simp: derive_key_def split: sum.splits)

text \<open>
  Argon2 as documented: the parameters 64 MiB, 3 passes, 1 lane and 32 bytes of output are
  valid, and every password below 4 GiB with a salt of at least 8 bytes is hashed.
\<close>

definition argon2_works :: "crypto \<Rightarrow> bool" where
  "argon2_works P \<longleftrightarrow> argon2_sized P \<and>
     (\<exists>params. params_new P 65536 3 1 (Some KEY_LEN) = Inr params \<and>
        (\<forall>pw salt. length pw < 2 ^ 32 \<longrightarrow> 8 \<le> length salt \<longrightarrow>
           (\<exists>key. hash_password_into P params pw salt KEY_LEN = Inr key)))"

lemma derive_key_works:
  assumes "argon2_works P" and "length pass < 2 ^ 32" and "8 \<le> length salt"
  shows "\<exists>key. derive_key P pass salt = Inr key \<and> length key = KEY_LEN"
proof -
  obtain key where "derive_key P pass salt = Inr key"
    using assms unfolding argon2_works_def derive_key_def by force
  then show ?thesis using derive_key_length assms(1) by (auto simp: argon2_works_def)
qed

lemma demo_argon2_works: "argon2_works demo_crypto"
  using demo_argon2_sized by (simp add: argon2_works_def) (simp add: demo_crypto_def)

end
