(* ===== verification/Cry_Chunks.thy ===== *)
theory Cry_Chunks
  imports Cry_Header Cry_Kdf
begin

text \<open>
  The encrypted body, \<open>src/cipher.rs\<close> from line 251 on: associated data, per-chunk nonces,
  the AEAD dispatch and the two streaming loops. The loops are proved against a specification
  of the body as a list of sealed frames: sealing is what encryption writes, opening inverts
  it, and nothing but sealed frames is ever accepted.
\<close>

section \<open>Constants, associated data and nonces\<close>

definition CHUNK_SIZE :: nat where
  "CHUNK_SIZE = 1024 * 1024"

definition MAX_CHUNK_WIRE_LEN :: nat where
  "MAX_CHUNK_WIRE_LEN = CHUNK_SIZE + 64"

lemma CHUNK_SIZE_pos [simp]: "0 < CHUNK_SIZE" "CHUNK_SIZE \<noteq> 0"
  by (simp_all add: CHUNK_SIZE_def)

definition header_aad :: "crypto \<Rightarrow> header \<Rightarrow> bytes" where
  "header_aad P h = sha256 P (MAGIC @ [algo_byte (hdr_algo h)] @ hdr_salt h @ hdr_nonce h @
     u64_to_be_bytes (hdr_chunk_count h))"

definition chunk_aad :: "bytes \<Rightarrow> u64 \<Rightarrow> bytes" where
  "chunk_aad aad chunk_index = aad @ u64_to_be_bytes chunk_index"

text \<open>\<open>u64::overflowing_add\<close>: the wrapped sum and whether it wrapped.\<close>

definition overflowing_add :: "u64 \<Rightarrow> u64 \<Rightarrow> u64 \<times> bool" where
  "overflowing_add a b = (a + b, 2 ^ 64 \<le> unat a + unat b)"

definition chunk_nonce :: "bytes \<Rightarrow> u64 \<Rightarrow> bytes" where
  "chunk_nonce base index =
    (let hi = u32_from_be_bytes (take 4 base);
         lo = u64_from_be_bytes (take 8 (drop 4 base));
         (new_lo, carry) = overflowing_add lo index;
         new_hi = hi + (if carry then 1 else 0)
     in u32_to_be_bytes new_hi @ u64_to_be_bytes new_lo)"

section \<open>One chunk\<close>

definition encrypt_chunk ::
  "crypto \<Rightarrow> bytes \<Rightarrow> bytes \<Rightarrow> bytes \<Rightarrow> algorithm \<Rightarrow> bytes \<Rightarrow> cry_error + bytes" where
  "encrypt_chunk P plain key nonce algo aad =
    (case algo of
       Aes256Gcm \<Rightarrow>
         (case aes256gcm_encrypt P key nonce plain aad of
            Some ct \<Rightarrow> Inr ct | None \<Rightarrow> Inl EncryptionFailed)
     | ChaCha20Poly1305 \<Rightarrow>
         (case chacha20poly1305_encrypt P key nonce plain aad of
            Some ct \<Rightarrow> Inr ct | None \<Rightarrow> Inl EncryptionFailed))"

definition decrypt_chunk ::
  "crypto \<Rightarrow> bytes \<Rightarrow> bytes \<Rightarrow> bytes \<Rightarrow> algorithm \<Rightarrow> bytes \<Rightarrow> cry_error + bytes" where
  "decrypt_chunk P ct key nonce algo aad =
    (case algo of
       Aes256Gcm \<Rightarrow>
         (case aes256gcm_decrypt P key nonce ct aad of
            Some m \<Rightarrow> Inr m | None \<Rightarrow> Inl DecryptionFailed)
     | ChaCha20Poly1305 \<Rightarrow>
         (case chacha20poly1305_decrypt P key nonce ct aad of
            Some m \<Rightarrow> Inr m | None \<Rightarrow> Inl DecryptionFailed))"

lemma encrypt_chunk_lawful:
  assumes "ciphers_lawful P" "length key = 32" "length nonce = 12"
    and "length plain \<le> CHUNK_SIZE" "length aad = 40"
  shows "\<exists>ct. encrypt_chunk P plain key nonce algo aad = Inr ct \<and>
    length ct = length plain + 16 \<and> decrypt_chunk P ct key nonce algo aad = Inr plain"
proof -
  have bounds: "length plain \<le> 2 ^ 30" "length aad \<le> 2 ^ 30"
    using assms(4,5) by (simp_all add: CHUNK_SIZE_def)
  have lawful: "aead_lawful (aes256gcm_encrypt P) (aes256gcm_decrypt P)"
      "aead_lawful (chacha20poly1305_encrypt P) (chacha20poly1305_decrypt P)"
    using assms(1) by (simp_all add: ciphers_lawful_def)
  show ?thesis
    using aead_lawfulD [OF lawful(1) assms(2,3) bounds] aead_lawfulD [OF lawful(2) assms(2,3) bounds]
    by (cases algo) (auto simp: encrypt_chunk_def decrypt_chunk_def)
qed

lemma decrypt_chunk_tidy:
  "ciphers_tidy P \<Longrightarrow> decrypt_chunk P ct key nonce algo aad = Inr plain \<Longrightarrow>
     encrypt_chunk P plain key nonce algo aad = Inr ct"
  by (cases algo) (auto simp: ciphers_tidy_def aead_tidy_def encrypt_chunk_def decrypt_chunk_def
      split: option.splits)

section \<open>The streaming loops\<close>

function encrypt_loop ::
  "crypto \<Rightarrow> bytes \<Rightarrow> bytes \<Rightarrow> algorithm \<Rightarrow> bytes \<Rightarrow> u64 \<Rightarrow> reader \<Rightarrow> writer \<Rightarrow>
     (cry_error + u64) \<times> reader \<times> writer" where
  "encrypt_loop P key base_nonce algo aad chunk_index reader writer =
    (case read_chunk CHUNK_SIZE reader of
       (Inl e, reader) \<Rightarrow> (Inl e, reader, writer)
     | (Inr buf, reader) \<Rightarrow>
         if buf = [] then (Inr chunk_index, reader, writer) else
         (case encrypt_chunk P buf key (chunk_nonce base_nonce chunk_index) algo
                 (chunk_aad aad chunk_index) of
            Inl e \<Rightarrow> (Inl e, reader, writer)
          | Inr ct \<Rightarrow>
              (case write_all (u32_to_be_bytes (word_of_nat (length ct))) writer of
                 (Inl e, writer) \<Rightarrow> (Inl (Io e), reader, writer)
               | (Inr _, writer) \<Rightarrow>
                   (case write_all ct writer of
                      (Inl e, writer) \<Rightarrow> (Inl (Io e), reader, writer)
                    | (Inr _, writer) \<Rightarrow>
                        if length buf < CHUNK_SIZE then (Inr (chunk_index + 1), reader, writer)
                        else encrypt_loop P key base_nonce algo aad (chunk_index + 1)
                               reader writer))))"
  by pat_completeness auto
termination
  by (relation "measure (\<lambda>(P, key, base, algo, aad, index, reader, writer). reader_size reader)")
    (auto dest!: sym [of "(_, _)"] intro: read_chunk_progress)

declare encrypt_loop.simps [simp del]

text \<open>\<open>total_chunks\<close> only selects the progress line on the terminal.\<close>

definition encrypt_chunks ::
  "crypto \<Rightarrow> reader \<Rightarrow> writer \<Rightarrow> bytes \<Rightarrow> bytes \<Rightarrow> algorithm \<Rightarrow> bytes \<Rightarrow> u64 \<Rightarrow>
     (cry_error + u64) \<times> reader \<times> writer" where
  "encrypt_chunks P reader writer key base_nonce algo aad total_chunks =
     encrypt_loop P key base_nonce algo aad 0 reader writer"

lemma frame_read_progress:
  assumes "read_exact 4 r = (Inr bs, r1)" and "read_exact n r1 = (Inr cs, r2)"
  shows "reader_size r2 < reader_size r"
  using read_exact_size [OF assms(1)] read_exact_size [OF assms(2)] by linarith

function decrypt_loop ::
  "crypto \<Rightarrow> bytes \<Rightarrow> bytes \<Rightarrow> algorithm \<Rightarrow> bytes \<Rightarrow> u64 \<Rightarrow> reader \<Rightarrow> writer \<Rightarrow>
     (cry_error + u64) \<times> reader \<times> writer" where
  "decrypt_loop P key base_nonce algo aad chunk_index reader writer =
    (case read_exact 4 reader of
       (Inl e, reader) \<Rightarrow>
         if e = UnexpectedEof then (Inr chunk_index, reader, writer)
         else (Inl (Io e), reader, writer)
     | (Inr len_buf, reader) \<Rightarrow>
         let ct_len = unat (u32_from_be_bytes len_buf) in
         if ct_len > MAX_CHUNK_WIRE_LEN
         then (Inl (SuspiciousChunkLen chunk_index ct_len), reader, writer) else
         (case read_exact ct_len reader of
            (Inl e, reader) \<Rightarrow> (Inl (Io e), reader, writer)
          | (Inr ct, reader) \<Rightarrow>
              (case decrypt_chunk P ct key (chunk_nonce base_nonce chunk_index) algo
                      (chunk_aad aad chunk_index) of
                 Inl e \<Rightarrow> (Inl e, reader, writer)
               | Inr plain \<Rightarrow>
                   (case write_all plain writer of
                      (Inl e, writer) \<Rightarrow> (Inl (Io e), reader, writer)
                    | (Inr _, writer) \<Rightarrow>
                        decrypt_loop P key base_nonce algo aad (chunk_index + 1)
                          reader writer))))"
  by pat_completeness auto
termination
  by (relation "measure (\<lambda>(P, key, base, algo, aad, index, reader, writer). reader_size reader)")
    (auto dest!: sym [of "(_, _)"] intro: frame_read_progress)

declare decrypt_loop.simps [simp del]

definition decrypt_chunks ::
  "crypto \<Rightarrow> reader \<Rightarrow> writer \<Rightarrow> bytes \<Rightarrow> bytes \<Rightarrow> algorithm \<Rightarrow> bytes \<Rightarrow> u64 \<Rightarrow>
     (cry_error + u64) \<times> reader \<times> writer" where
  "decrypt_chunks P reader writer key base_nonce algo aad total_chunks =
     decrypt_loop P key base_nonce algo aad 0 reader writer"

section \<open>Nonces and associated data\<close>

lemma length_chunk_nonce [simp, wire_length]: "length (chunk_nonce base i) = 12"
  by (simp add: chunk_nonce_def overflowing_add_def Let_def split: prod.splits)

lemma length_chunk_aad [simp, wire_length]: "length (chunk_aad aad i) = length aad + 8"
  by (simp add: chunk_aad_def)

lemma unat_u64_from: "length bs = 8 \<Longrightarrow> unat (u64_from_be_bytes bs) = be_nat bs"
  using be_nat_u64 [of "u64_from_be_bytes bs"] by (simp add: be64.enc_dec_id)

lemma unat_u32_from: "length bs = 4 \<Longrightarrow> unat (u32_from_be_bytes bs) = be_nat bs"
  using be_nat_u32 [of "u32_from_be_bytes bs"] by (simp add: be32.enc_dec_id)

lemma mod_two_limbs:
  fixes a x :: nat
  assumes "x < 2 ^ 64"
  shows "(a mod 2 ^ 32) * 2 ^ 64 + x = (a * 2 ^ 64 + x) mod 2 ^ 96"
proof -
  have "(2::nat) ^ 96 = 2 ^ 64 * 2 ^ 32" by simp
  moreover have "(a * 2 ^ 64 + x) div 2 ^ 64 = a" using assms by simp
  moreover have "(a * 2 ^ 64 + x) mod 2 ^ 64 = x" using assms by simp
  ultimately show ?thesis
    by (metis mod_mult2_eq mult.commute)
qed

lemma be_nat_chunk_nonce:
  assumes "length base = 12"
  shows "be_nat (chunk_nonce base i) = (be_nat base + unat i) mod 2 ^ 96"
proof -
  let ?H = "be_nat (take 4 base)" and ?L = "be_nat (drop 4 base)"
  let ?hi = "u32_from_be_bytes (take 4 base)" and ?lo = "u64_from_be_bytes (drop 4 base)"
  have split: "be_nat base = ?H * 2 ^ 64 + ?L"
    using be_nat_append [of "take 4 base" "drop 4 base"] assms by simp
  have hi: "unat ?hi = ?H" and lo: "unat ?lo = ?L"
    using assms by (simp_all add: unat_u32_from unat_u64_from)
  have L: "?L < 2 ^ 64" using unat_u64_less [of ?lo] lo by simp
  have result: "be_nat (chunk_nonce base i) =
      unat (?hi + (if 2 ^ 64 \<le> ?L + unat i then 1 else 0)) * 2 ^ 64 + unat (?lo + i)"
    using assms by (simp add: chunk_nonce_def overflowing_add_def lo be_nat_append be_nat_u32 be_nat_u64)
  show ?thesis
  proof (cases "2 ^ 64 \<le> ?L + unat i")
    case True
    have "unat (?lo + i) = ?L + unat i - 2 ^ 64"
      using True L unat_u64_less [of i] by (simp add: unat_word_ariths lo mod_if)
    moreover have "unat (?hi + 1) = (?H + 1) mod 2 ^ 32"
      by (simp add: unat_word_ariths hi)
    moreover have "?L + unat i - 2 ^ 64 < 2 ^ 64" using L unat_u64_less [of i] by simp
    moreover have "(?H + 1) * 2 ^ 64 + (?L + unat i - 2 ^ 64) = be_nat base + unat i"
      using True split by simp
    ultimately show ?thesis
      using result True mod_two_limbs [of "?L + unat i - 2 ^ 64" "?H + 1"] by simp
  next
    case False
    have "unat (?lo + i) = ?L + unat i"
      using False by (simp add: unat_word_ariths lo)
    moreover have "?H mod 2 ^ 32 = ?H" using unat_u32_less [of ?hi] hi by simp
    ultimately show ?thesis
      using result False mod_two_limbs [of "?L + unat i" ?H] by (simp add: hi split add.assoc)
  qed
qed

lemma chunk_nonce_inject:
  assumes "length base = 12" and "chunk_nonce base i = chunk_nonce base j"
  shows "i = j"
proof -
  have "(be_nat base + unat i) mod 2 ^ 96 = (be_nat base + unat j) mod 2 ^ 96"
    using assms by (metis be_nat_chunk_nonce)
  then have "unat i mod 2 ^ 96 = unat j mod 2 ^ 96"
    by (simp add: nat_mod_eq_iff mod_add_left_eq)
  then show ?thesis using unat_u64_less [of i] unat_u64_less [of j] by (simp add: word_unat_eq_iff)
qed

section \<open>Specification of the body\<close>

text \<open>
  A plaintext is cut into pieces of \<open>CHUNK_SIZE\<close> bytes, the last one shorter. A body is the
  concatenation of frames: the big-endian length of a ciphertext, then the ciphertext of the
  piece under the nonce and the associated data of its index.
\<close>

function pieces :: "bytes \<Rightarrow> bytes list" where
  "pieces bs = (if bs = [] then [] else take CHUNK_SIZE bs # pieces (drop CHUNK_SIZE bs))"
  by pat_completeness auto
termination
  by (relation "measure length") (auto simp: length_greater_0_conv [symmetric] simp del: length_greater_0_conv)

declare pieces.simps [simp del]

lemma pieces_empty [simp]: "pieces [] = []"
  by (simp add: pieces.simps [of "[]"])

lemma pieces_step: "bs \<noteq> [] \<Longrightarrow> pieces bs = take CHUNK_SIZE bs # pieces (drop CHUNK_SIZE bs)"
  by (simp add: pieces.simps [of bs])

definition frame :: "bytes \<Rightarrow> bytes" where
  "frame ct = u32_to_be_bytes (word_of_nat (length ct)) @ ct"

definition seal :: "crypto \<Rightarrow> bytes \<Rightarrow> bytes \<Rightarrow> algorithm \<Rightarrow> bytes \<Rightarrow> u64 \<Rightarrow> bytes \<Rightarrow> cry_error + bytes" where
  "seal P key base algo aad i m =
     encrypt_chunk P m key (chunk_nonce base i) algo (chunk_aad aad i)"

definition unseal :: "crypto \<Rightarrow> bytes \<Rightarrow> bytes \<Rightarrow> algorithm \<Rightarrow> bytes \<Rightarrow> u64 \<Rightarrow> bytes \<Rightarrow> cry_error + bytes" where
  "unseal P key base algo aad i ct =
     decrypt_chunk P ct key (chunk_nonce base i) algo (chunk_aad aad i)"

text \<open>
  \<open>sealed_body \<dots> i ms body\<close>: the bytes \<open>body\<close> are the frames of the pieces \<open>ms\<close>,
  sealed from index \<open>i\<close> on.
\<close>

fun sealed_body ::
  "crypto \<Rightarrow> bytes \<Rightarrow> bytes \<Rightarrow> algorithm \<Rightarrow> bytes \<Rightarrow> u64 \<Rightarrow> bytes list \<Rightarrow> bytes \<Rightarrow> bool" where
  "sealed_body P key base algo aad i [] body = (body = [])"
| "sealed_body P key base algo aad i (m # ms) body =
     (case seal P key base algo aad i m of
        Inl e \<Rightarrow> False
      | Inr ct \<Rightarrow> take (length ct + 4) body = frame ct \<and>
          sealed_body P key base algo aad (i + 1) ms (drop (length ct + 4) body))"

lemma length_frame [simp, wire_length]: "length (frame ct) = length ct + 4"
  by (simp add: frame_def)

lemma sealed_body_Cons:
  "sealed_body P key base algo aad i (m # ms) body \<longleftrightarrow>
     (\<exists>ct rest. seal P key base algo aad i m = Inr ct \<and> body = frame ct @ rest \<and>
        sealed_body P key base algo aad (i + 1) ms rest)"
  by (auto split: sum.splits) (metis append_take_drop_id)

declare sealed_body.simps(2) [simp del]

lemma sealed_body_deterministic:
  "sealed_body P key base algo aad i ms body \<Longrightarrow> sealed_body P key base algo aad i ms body' \<Longrightarrow>
     body = body'"
proof (induction ms arbitrary: i body body')
  case Nil
  then show ?case by simp
next
  case (Cons m ms)
  then show ?case by (fastforce simp: sealed_body_Cons)
qed

lemma concat_pieces [simp]: "concat (pieces bs) = bs"
proof (induction bs rule: pieces.induct)
  case (1 bs)
  then show ?case by (cases "bs = []") (simp_all add: pieces_step [of bs])
qed

lemma length_of_pieces: "m \<in> set (pieces bs) \<Longrightarrow> 0 < length m \<and> length m \<le> CHUNK_SIZE"
proof (induction bs rule: pieces.induct)
  case (1 bs)
  show ?case
  proof (cases "bs = []")
    case True
    with "1.prems" show ?thesis by simp
  next
    case False
    then consider "m = take CHUNK_SIZE bs" | "m \<in> set (pieces (drop CHUNK_SIZE bs))"
      using "1.prems" by (simp add: pieces_step [of bs]) blast
    then show ?thesis
    proof cases
      case 1
      with False show ?thesis by simp
    next
      case 2
      with "1.IH" [OF False] show ?thesis by simp
    qed
  qed
qed

lemma length_pieces_le: "length (pieces bs) \<le> length bs"
proof (induction bs rule: pieces.induct)
  case (1 bs)
  then show ?case by (cases "bs = []") (auto simp: pieces_step [of bs] Suc_le_eq length_greater_0_conv
      elim!: le_less_trans)
qed

lemma length_pieces: "length (pieces bs) = (length bs + CHUNK_SIZE - 1) div CHUNK_SIZE"
proof (induction bs rule: pieces.induct)
  case (1 bs)
  consider "bs = []" | k where "length bs = Suc k" "k < CHUNK_SIZE"
    | k where "length bs = Suc (CHUNK_SIZE + k)"
    by (metis length_0_conv less_Suc_eq_le less_imp_Suc_add not_less old.nat.exhaust Suc_le_eq)
  then show ?case
  proof cases
    case 2
    then have "bs \<noteq> []" by auto
    with 2 show ?thesis by (simp add: pieces_step [of bs] div_add_self2)
  next
    case 3
    then have "bs \<noteq> []" by auto
    with 3 "1.IH" show ?thesis by (simp add: pieces_step [of bs] div_add_self1 div_add_self2)
  qed simp
qed

section \<open>Correctness of the loops\<close>

text \<open>The array lengths the Rust types fix for the arguments of the loops.\<close>

definition chunk_args :: "bytes \<Rightarrow> bytes \<Rightarrow> bytes \<Rightarrow> bool" where
  "chunk_args key base aad \<longleftrightarrow> length key = KEY_LEN \<and> length base = NONCE_LEN \<and> length aad = 32"

lemma seal_lawful:
  assumes "ciphers_lawful P" "chunk_args key base aad" "length m \<le> CHUNK_SIZE"
  shows "\<exists>ct. seal P key base algo aad i m = Inr ct \<and> length ct = length m + 16 \<and>
    unseal P key base algo aad i ct = Inr m"
  using assms encrypt_chunk_lawful [of P key "chunk_nonce base i" m "chunk_aad aad i" algo]
  by (simp add: seal_def unseal_def chunk_args_def KEY_LEN_def)

lemma encrypt_loop_clean:
  assumes P: "ciphers_lawful P" "chunk_args key base aad"
    and "clean r" "willing w"
  shows "\<exists>r' w' body. encrypt_loop P key base algo aad i r w =
      (Inr (i + word_of_nat (length (pieces (pending r)))), r', w') \<and> willing w' \<and>
      sunk w' = sunk w @ body \<and> sealed_body P key base algo aad i (pieces (pending r)) body"
  using assms(3,4)
proof (induction "length (pending r)" arbitrary: i r w rule: less_induct)
  case less
  let ?bs = "pending r" and ?buf = "take CHUNK_SIZE (pending r)"
  obtain r1 where r1: "read_chunk CHUNK_SIZE r = (Inr ?buf, r1)" "clean r1"
      "pending r1 = drop CHUNK_SIZE ?bs"
    using rc.rc_take [OF less.prems(1)] by blast
  note unfold = encrypt_loop.simps [of P key base algo aad i r w]
  show ?case
  proof (cases "?bs = []")
    case True
    with r1 less.prems show ?thesis by (simp add: unfold)
  next
    case False
    obtain ct where ct: "seal P key base algo aad i ?buf = Inr ct" "length ct = length ?buf + 16"
      using seal_lawful [OF P, of ?buf] by auto
    obtain w1 where w1: "write_all (u32_to_be_bytes (word_of_nat (length ct))) w = (Inr (), w1)"
        "willing w1" "sunk w1 = sunk w @ u32_to_be_bytes (word_of_nat (length ct))"
      using write_all_willing [OF less.prems(2)] by blast
    obtain w2 where w2: "write_all ct w1 = (Inr (), w2)" "willing w2" "sunk w2 = sunk w1 @ ct"
      using write_all_willing [OF w1(2)] by blast
    note step = r1 ct(1) [unfolded seal_def] w1(1) w2(1)
    have sunk: "sunk w2 = sunk w @ frame ct" by (simp add: w1 w2 frame_def)
    have pcs: "pieces ?bs = ?buf # pieces (drop CHUNK_SIZE ?bs)" using False by (rule pieces_step)
    show ?thesis
    proof (cases "length ?bs < CHUNK_SIZE")
      case True
      then have "pieces ?bs = [?buf]" using pcs by simp
      with True False step w2(2) sunk ct(1) show ?thesis
        by (simp add: unfold sealed_body_Cons)
    next
      case long: False
      then have "length (pending r1) < length ?bs" using False r1(3) by (simp add: CHUNK_SIZE_def)
      from less.hyps [OF this r1(2) w2(2), of "i + 1"] obtain r' w' body where
        IH: "encrypt_loop P key base algo aad (i + 1) r1 w2 =
            (Inr (i + 1 + word_of_nat (length (pieces (pending r1)))), r', w')" "willing w'"
          "sunk w' = sunk w2 @ body" "sealed_body P key base algo aad (i + 1) (pieces (pending r1)) body"
        by blast
      have "encrypt_loop P key base algo aad i r w = encrypt_loop P key base algo aad (i + 1) r1 w2"
        using long False step by (simp add: unfold)
      moreover have "sealed_body P key base algo aad i (pieces ?bs) (frame ct @ body)"
        using IH(4) ct(1) r1(3) pcs by (auto simp: sealed_body_Cons)
      ultimately show ?thesis using IH sunk r1(3) pcs by (simp add: algebra_simps)
    qed
  qed
qed

lemma decrypt_loop_frame:
  assumes "clean r" "pending r = frame ct @ rest" "length ct \<le> MAX_CHUNK_WIRE_LEN"
    and "unseal P key base algo aad i ct = Inr m" "willing w"
  shows "\<exists>r' w'. decrypt_loop P key base algo aad i r w = decrypt_loop P key base algo aad (i + 1) r' w'
    \<and> clean r' \<and> pending r' = rest \<and> willing w' \<and> sunk w' = sunk w @ m"
proof -
  let ?len = "u32_to_be_bytes (word_of_nat (length ct))"
  obtain r1 where r1: "read_exact 4 r = (Inr ?len, r1)" "clean r1" "pending r1 = ct @ rest"
    using rx.rx_prefix [OF assms(1), of ?len "ct @ rest" 4] assms(2) by (auto simp: frame_def)
  obtain r2 where r2: "read_exact (length ct) r1 = (Inr ct, r2)" "clean r2" "pending r2 = rest"
    using rx.rx_prefix [OF r1(2,3) refl] by blast
  obtain w1 where w1: "write_all m w = (Inr (), w1)" "willing w1" "sunk w1 = sunk w @ m"
    using write_all_willing [OF assms(5)] by blast
  have "length ct < 2 ^ 32" using assms(3) by (simp add: MAX_CHUNK_WIRE_LEN_def CHUNK_SIZE_def)
  then have "unat (u32_from_be_bytes ?len) = length ct" by (simp add: be32.dec_enc_id unat_of_nat)
  then have "decrypt_loop P key base algo aad i r w = decrypt_loop P key base algo aad (i + 1) r2 w1"
    using r1(1) r2(1) w1(1) assms(3,4) [unfolded unseal_def]
    by (simp add: decrypt_loop.simps [of P key base algo aad i r w])
  with r2 w1 show ?thesis by blast
qed

definition piece_lengths :: "bytes list \<Rightarrow> bool" where
  "piece_lengths ms \<longleftrightarrow> list_all (\<lambda>m. length m \<le> CHUNK_SIZE) ms"

lemma piece_lengths_pieces: "piece_lengths (pieces bs)"
  by (auto simp: piece_lengths_def list_all_iff dest: length_of_pieces)

lemma sealed_frameE:
  assumes "ciphers_lawful P" "chunk_args key base aad" "piece_lengths (m # ms)"
    and "sealed_body P key base algo aad i (m # ms) body"
  obtains ct rest where "body = frame ct @ rest" "length ct = length m + 16"
    "length ct \<le> MAX_CHUNK_WIRE_LEN" "unseal P key base algo aad i ct = Inr m"
    "sealed_body P key base algo aad (i + 1) ms rest" "piece_lengths ms"
  using assms seal_lawful [OF assms(1,2), of m algo i]
  by (auto simp: sealed_body_Cons piece_lengths_def MAX_CHUNK_WIRE_LEN_def)

lemma decrypt_loop_sealed:
  assumes P: "ciphers_lawful P" "chunk_args key base aad"
    and "piece_lengths ms" "sealed_body P key base algo aad i ms body"
    and "clean r" "pending r = body @ tail" "length tail < 4" "willing w"
  shows "\<exists>r' w'. decrypt_loop P key base algo aad i r w =
      (Inr (i + word_of_nat (length ms)), r', w') \<and> willing w' \<and> sunk w' = sunk w @ concat ms"
  using assms(3-6,8)
proof (induction ms arbitrary: i body r w)
  case Nil
  then have "length (pending r) < 4" using assms(7) by simp
  with Nil.prems show ?case
    using rx.rx_short [of r 4] by (auto simp: decrypt_loop.simps [of P key base algo aad i r w])
next
  case (Cons m ms)
  from sealed_frameE [OF P Cons.prems(1,2)] obtain ct rest where
    ct: "body = frame ct @ rest" "length ct \<le> MAX_CHUNK_WIRE_LEN"
      "unseal P key base algo aad i ct = Inr m"
      "sealed_body P key base algo aad (i + 1) ms rest" "piece_lengths ms" by metis
  have "pending r = frame ct @ rest @ tail" using ct(1) Cons.prems(4) by simp
  from decrypt_loop_frame [OF Cons.prems(3) this ct(2,3) Cons.prems(5)] obtain r1 w1 where
    step: "decrypt_loop P key base algo aad i r w = decrypt_loop P key base algo aad (i + 1) r1 w1"
      "clean r1" "pending r1 = rest @ tail" "willing w1" "sunk w1 = sunk w @ m"
    by blast
  from Cons.IH [OF ct(5,4) step(2,3,4)] step show ?case by (auto simp: algebra_simps)
qed

text \<open>
  A sealed body cut short: \<open>cut_at\<close> says how many frames are complete and how many bytes of
  the next one are left; these decide what decryption makes of it.
\<close>

fun cut_at :: "bytes list \<Rightarrow> nat \<Rightarrow> nat \<times> nat" where
  "cut_at [] k = (0, k)"
| "cut_at (m # ms) k =
     (if k < length m + 20 then (0, k)
      else (let (j, rest) = cut_at ms (k - (length m + 20)) in (Suc j, rest)))"

lemma decrypt_loop_cut:
  assumes P: "ciphers_lawful P" "chunk_args key base aad"
    and "piece_lengths ms" "sealed_body P key base algo aad i ms body"
    and "clean r" "pending r = take k body" "k < length body" "willing w"
    and "cut_at ms k = (j, rest)"
  shows "j < length ms \<and> (\<exists>r' w'. decrypt_loop P key base algo aad i r w =
      (if rest < 4 then Inr (i + word_of_nat j) else Inl (Io UnexpectedEof), r', w') \<and>
      sunk w' = sunk w @ concat (take j ms))"
  using assms(3-9)
proof (induction ms arbitrary: i body r w k j)
  case Nil
  then show ?case by simp
next
  case (Cons m ms)
  from sealed_frameE [OF P Cons.prems(1,2)] obtain ct bs where
    ct: "body = frame ct @ bs" "length ct = length m + 16" "length ct \<le> MAX_CHUNK_WIRE_LEN"
      "unseal P key base algo aad i ct = Inr m"
      "sealed_body P key base algo aad (i + 1) ms bs" "piece_lengths ms" by metis
  note unfold = decrypt_loop.simps [of P key base algo aad i r w]
  consider "k < 4" | "4 \<le> k" "k < length ct + 4" | "length ct + 4 \<le> k" by linarith
  then show ?case
  proof cases
    case 1
    then have "length (pending r) < 4" "j = 0" "rest = k" using Cons.prems(4,7) by simp_all
    with rx.rx_short [OF Cons.prems(3) this(1)] 1 show ?thesis by (auto simp: unfold)
  next
    case 2
    let ?len = "u32_to_be_bytes (word_of_nat (length ct))"
    have "pending r = ?len @ take (k - 4) ct"
      using 2 ct(1) Cons.prems(4) by (simp add: frame_def)
    from rx.rx_prefix [OF Cons.prems(3) this, of 4] obtain r1 where
      r1: "read_exact 4 r = (Inr ?len, r1)" "clean r1" "pending r1 = take (k - 4) ct" by auto
    have "length (pending r1) < length ct" using 2 r1(3) by simp
    from rx.rx_short [OF r1(2) this] obtain r2 where
      "read_exact (length ct) r1 = (Inl UnexpectedEof, r2)" by blast
    moreover have "unat (u32_from_be_bytes ?len) = length ct"
      using ct(3) by (simp add: be32.dec_enc_id unat_of_nat MAX_CHUNK_WIRE_LEN_def CHUNK_SIZE_def)
    ultimately show ?thesis using r1(1) ct(2,3) 2 Cons.prems(7) by (auto simp: unfold)
  next
    case 3
    have "pending r = frame ct @ take (k - (length ct + 4)) bs"
      using 3 ct(1) Cons.prems(4) by simp
    from decrypt_loop_frame [OF Cons.prems(3) this ct(3,4) Cons.prems(6)] obtain r1 w1 where
      step: "decrypt_loop P key base algo aad i r w = decrypt_loop P key base algo aad (i + 1) r1 w1"
        "clean r1" "pending r1 = take (k - (length ct + 4)) bs" "willing w1" "sunk w1 = sunk w @ m" by blast
    have "k - (length ct + 4) < length bs" using 3 ct(1) Cons.prems(5) by simp
    moreover have "length ct + 4 = length m + 20" using ct(2) by simp
    then obtain j' where "j = Suc j'" "cut_at ms (k - (length ct + 4)) = (j', rest)"
      using 3 Cons.prems(7) by (auto simp: Let_def split: prod.splits)
    ultimately show ?thesis
      using Cons.IH [OF ct(6,5) step(2,3) _ step(4)] step(1,5) by (auto simp: algebra_simps)
  qed
qed

lemma length_sealed_body:
  assumes "ciphers_lawful P" "chunk_args key base aad"
    and "piece_lengths ms" "sealed_body P key base algo aad i ms body"
  shows "length body = length (concat ms) + 20 * length ms"
  using assms(3,4)
proof (induction ms arbitrary: i body)
  case (Cons m ms)
  from sealed_frameE [OF assms(1,2) Cons.prems] Cons.IH show ?case by fastforce
qed simp

text \<open>The pieces of a plaintext have the chunk size, so that a cut falls in the frame of its quotient.\<close>

lemma cut_at_pieces:
  assumes "k < length bs + 20 * length (pieces bs)"
  shows "cut_at (pieces bs) k = (k div (CHUNK_SIZE + 20), k mod (CHUNK_SIZE + 20)) \<and>
    concat (take (k div (CHUNK_SIZE + 20)) (pieces bs)) = take (k div (CHUNK_SIZE + 20) * CHUNK_SIZE) bs"
  using assms
proof (induction bs arbitrary: k rule: pieces.induct)
  case (1 bs)
  show ?case
  proof (cases "bs = []")
    case True
    then show ?thesis using "1.prems" by simp
  next
    case False
    note split = pieces.simps [of bs]
    let ?F = "CHUNK_SIZE + 20" and ?m = "take CHUNK_SIZE bs" and ?rest = "drop CHUNK_SIZE bs"
    show ?thesis
    proof (cases "k < length ?m + 20")
      case True
      then have "k < ?F" by simp
      then show ?thesis using True False by (simp add: split)
    next
      case beyond: False
      then have long: "CHUNK_SIZE < length bs" and k: "?F \<le> k"
        using "1.prems" False by (auto simp: split min_def split: if_splits)
      then have "k - ?F < length ?rest + 20 * length (pieces ?rest)" using "1.prems" False by (simp add: split)
      from "1.IH" [OF False this] k show ?thesis
        using False long by (simp add: split le_div_geq le_mod_geq take_add)
    qed
  qed
qed

text \<open>Whatever is accepted is a sealed body of the plaintext that came out, and a remainder
  too short for a length field.\<close>

lemma decrypt_loop_accepts:
  assumes "ciphers_tidy P" and "clean r"
    and "decrypt_loop P key base algo aad i r w = (Inr n, r', w')"
  shows "\<exists>ms body tail. pending r = body @ tail \<and> length tail < 4 \<and>
    sealed_body P key base algo aad i ms body \<and> n = i + word_of_nat (length ms) \<and>
    sunk w' = sunk w @ concat ms"
  using assms(2,3)
proof (induction "length (pending r)" arbitrary: i r w rule: less_induct)
  case less
  note unfold = decrypt_loop.simps [of P key base algo aad i r w]
  obtain res1 r1 where rd1: "read_exact 4 r = (res1, r1)" by fastforce
  show ?case
  proof (cases res1)
    case (Inl e)
    then have "e = UnexpectedEof" "length (pending r) < 4"
      using rx.rx_Inl [OF less.prems(1)] rd1 by auto
    with less.prems(2) rd1 Inl show ?thesis
      by (intro exI [of _ "[]"] exI [of _ "pending r"]) (auto simp: unfold)
  next
    case (Inr len)
    have r1: "length len = 4" "clean r1" "pending r = len @ pending r1"
      using rx.rx_Inr [OF less.prems(1)] rd1 Inr by auto
    let ?n = "unat (u32_from_be_bytes len)"
    from less.prems(2) rd1 Inr obtain ct r2 where
      rd2: "read_exact ?n r1 = (Inr ct, r2)" and fits: "?n \<le> MAX_CHUNK_WIRE_LEN"
      by (auto simp: unfold Let_def split: if_splits prod.splits sum.splits)
    have r2: "length ct = ?n" "clean r2" "pending r1 = ct @ pending r2"
      using rx.rx_Inr [OF r1(2) rd2] by auto
    from less.prems(2) rd1 Inr rd2 fits obtain m w1 where
      open': "unseal P key base algo aad i ct = Inr m" and w1: "write_all m w = (Inr (), w1)"
      and tl: "decrypt_loop P key base algo aad (i + 1) r2 w1 = (Inr n, r', w')"
      by (auto simp: unfold unseal_def Let_def split: if_splits prod.splits sum.splits)
    have fr: "len @ ct = frame ct"
      using r1(1) r2(1) by (simp add: frame_def be32.enc_dec_id)
    have "length (pending r2) < length (pending r)" using r1 r2(3) by simp
    from less.hyps [OF this r2(2) tl] obtain ms body tail where
      IH: "pending r2 = body @ tail" "length tail < 4"
        "sealed_body P key base algo aad (i + 1) ms body"
        "n = i + 1 + word_of_nat (length ms)" "sunk w' = sunk w1 @ concat ms" by blast
    have "seal P key base algo aad i m = Inr ct"
      using decrypt_chunk_tidy [OF assms(1)] open' by (simp add: seal_def unseal_def)
    with IH fr r1(3) r2(3) write_all_Inr [OF w1] show ?thesis
      by (intro exI [of _ "m # ms"] exI [of _ "frame ct @ body"] exI [of _ tail])
        (auto simp: sealed_body_Cons algebra_simps)
  qed
qed

text \<open>A stream that fails for good is never accepted.\<close>

lemma decrypt_loop_breaks:
  assumes "breaks r"
  shows "fst (decrypt_loop P key base algo aad i r w) \<noteq> Inr n"
  using assms
proof (induction P key base algo aad i r w rule: decrypt_loop.induct)
  case (1 P key base algo aad i r w)
  note unfold = decrypt_loop.simps [of P key base algo aad i r w]
  obtain x r1 where rd1: "read_exact 4 r = (x, r1)" by fastforce
  note step1 = read_exact_breaks [OF "1.prems" rd1]
  show ?case
  proof (cases x)
    case (Inl e)
    with step1 rd1 show ?thesis by (simp add: unfold)
  next
    case len: (Inr len)
    let ?n = "unat (u32_from_be_bytes len)"
    obtain y r2 where rd2: "read_exact ?n r1 = (y, r2)" by fastforce
    show ?thesis
    proof (cases y)
      case (Inl e)
      with rd1 len rd2 show ?thesis by (simp add: unfold Let_def)
    next
      case (Inr ct)
      have "breaks r2" using read_exact_breaks [OF _ rd2] step1 len Inr by simp
      note IH = "1.IH" [OF rd1 [symmetric] len refl _ rd2 [symmetric] Inr _ _ _ this]
      show ?thesis using rd1 len rd2 Inr IH
        by (auto simp: unfold Let_def split: sum.splits prod.splits)
    qed
  qed
qed

text \<open>For any reader and any writer, a successful encryption has written a sealed body.\<close>

lemma encrypt_loop_Inr:
  assumes "encrypt_loop P key base algo aad i r w = (Inr n, r', w')"
  shows "\<exists>ms body. sunk w' = sunk w @ body \<and> sealed_body P key base algo aad i ms body \<and>
    n = i + word_of_nat (length ms) \<and> piece_lengths ms"
  using assms
proof (induction P key base algo aad i r w rule: encrypt_loop.induct)
  case (1 P key base algo aad i r w)
  note unfold = encrypt_loop.simps [of P key base algo aad i r w]
  obtain res r1 where rd: "read_chunk CHUNK_SIZE r = (res, r1)" by fastforce
  with "1.prems" obtain buf where buf: "res = Inr buf" by (cases res) (auto simp: unfold)
  show ?case
  proof (cases "buf = []")
    case True
    with "1.prems" rd buf show ?thesis
      by (intro exI [of _ "[]"]) (simp add: unfold piece_lengths_def)
  next
    case False
    let ?lenb = "\<lambda>ct. u32_to_be_bytes (word_of_nat (length ct))"
    from "1.prems" rd buf False obtain ct w1 w2 where
      ct: "encrypt_chunk P buf key (chunk_nonce base i) algo (chunk_aad aad i) = Inr ct"
      and w1: "write_all (?lenb ct) w = (Inr (), w1)" and w2: "write_all ct w1 = (Inr (), w2)"
      by (auto simp: unfold split: prod.splits sum.splits)
    have sunk: "sunk w2 = sunk w @ frame ct"
      using write_all_Inr [OF w1] write_all_Inr [OF w2] by (simp add: frame_def)
    have len: "length buf \<le> CHUNK_SIZE" using rd buf by (simp add: read_chunk_length)
    show ?thesis
    proof (cases "length buf < CHUNK_SIZE")
      case True
      with "1.prems" rd buf False ct w1 w2 sunk len show ?thesis
        by (intro exI [of _ "[buf]"] exI [of _ "frame ct"])
          (simp add: unfold sealed_body_Cons seal_def piece_lengths_def)
    next
      case long: False
      then have "encrypt_loop P key base algo aad (i + 1) r1 w2 = (Inr n, r', w')"
        using "1.prems" rd buf False ct w1 w2 by (simp add: unfold)
      from "1.IH" [OF rd [symmetric] buf False ct w1 [symmetric] refl w2 [symmetric] refl long this]
      obtain ms body where "sunk w' = sunk w2 @ body"
          "sealed_body P key base algo aad (i + 1) ms body" "n = i + 1 + word_of_nat (length ms)"
          "piece_lengths ms" by blast
      with sunk ct len show ?thesis
        by (intro exI [of _ "buf # ms"] exI [of _ "frame ct @ body"])
          (auto simp: sealed_body_Cons seal_def piece_lengths_def algebra_simps)
    qed
  qed
qed

section \<open>The chunk count\<close>

text \<open>\<open>u64::div_ceil\<close>.\<close>

definition div_ceil :: "u64 \<Rightarrow> u64 \<Rightarrow> u64" where
  "div_ceil a b = (let d = a div b; r = a mod b in if 0 < r then d + 1 else d)"

lemma ceiling_div_nat:
  fixes a b :: nat
  assumes "0 < b"
  shows "(a + b - 1) div b = (if 0 < a mod b then a div b + 1 else a div b)"
proof (cases "a mod b = 0")
  case True
  then obtain k where "a = b * k" by auto
  moreover have "b * k + b - 1 = b * k + (b - 1)" using assms by simp
  moreover have "(b * k + (b - 1)) div b = k" using assms div_mult_self4 [of b k "b - 1"] by simp
  ultimately show ?thesis using assms by (simp del: add_diff_assoc)
next
  case False
  then obtain r where r: "a mod b = Suc r" by (cases "a mod b") auto
  have "a + b - 1 = r + b * (a div b + 1)"
    using r assms mult_div_mod_eq [of b a] by (simp add: algebra_simps)
  moreover have "r < b" using r assms by (metis Suc_lessD mod_less_divisor)
  then have "(r + b * (a div b + 1)) div b = a div b + 1"
    using div_mult_self2 [of b r "a div b + 1"] assms by simp
  ultimately show ?thesis using r by (simp only:) simp
qed

lemma unat_CHUNK_SIZE [simp]: "unat (word_of_nat CHUNK_SIZE :: u64) = CHUNK_SIZE"
  by (simp add: CHUNK_SIZE_def)

lemma div_ceil_pieces:
  assumes "length bs < 2 ^ 64"
  shows "div_ceil (word_of_nat (length bs)) (word_of_nat CHUNK_SIZE) = word_of_nat (length (pieces bs))"
proof -
  let ?a = "word_of_nat (length bs) :: u64" and ?b = "word_of_nat CHUNK_SIZE :: u64"
  have a: "unat ?a = length bs" using assms by (simp add: unat_of_nat)
  have "length bs div CHUNK_SIZE < 2 ^ 64"
    using assms by (meson div_le_dividend le_less_trans)
  then have "?a div ?b = word_of_nat (length bs div CHUNK_SIZE)"
    by (simp only: word_unat_eq_iff unat_div a unat_CHUNK_SIZE) (simp add: unat_of_nat)
  moreover have "(0 < ?a mod ?b) = (0 < length bs mod CHUNK_SIZE)"
    by (simp add: word_less_nat_alt unat_mod a)
  ultimately show ?thesis
    using ceiling_div_nat [of CHUNK_SIZE "length bs"]
    by (simp add: div_ceil_def Let_def length_pieces del: One_nat_def)
qed

section \<open>Properties\<close>

definition sample_key :: bytes where "sample_key = replicate 32 1"
definition sample_nonce :: bytes where "sample_nonce = replicate 12 255"
definition sample_aad :: bytes where "sample_aad = replicate 32 3"

lemma sample_args: "chunk_args sample_key sample_nonce sample_aad"
  by (simp add: chunk_args_def sample_key_def sample_nonce_def sample_aad_def KEY_LEN_def
      NONCE_LEN_def)

definition open_sink :: writer where "open_sink = \<lparr>sunk = [], wplan = []\<rparr>"

lemma open_sink_simps [simp]: "sunk open_sink = []" "willing open_sink"
  by (simp_all add: open_sink_def willing_def)

lemma small_pieces: "bs \<noteq> [] \<Longrightarrow> length bs \<le> CHUNK_SIZE \<Longrightarrow> pieces bs = [bs]"
  by (simp add: pieces_step)

text \<open>C11. The two-limb computation of a chunk nonce, a 64-bit overflowing addition whose carry
  goes into a 32-bit wrapping addition, is addition of the index to the base nonce read as one
  96-bit big-endian integer, modulo 2^96, for every base nonce and every index.\<close>

theorem chunk_nonce_is_96_bit_addition:
  assumes "length base = NONCE_LEN"
  shows "length (chunk_nonce base i) = NONCE_LEN \<and>
    be_nat (chunk_nonce base i) = (be_nat base + unat i) mod 2 ^ 96"
  using assms be_nat_chunk_nonce [of base i] by (simp add: NONCE_LEN_def)

theorem chunk_nonce_is_96_bit_addition_witness:
  "be_nat (chunk_nonce [0, 0, 0, 7, 255, 255, 255, 255, 255, 255, 255, 255] 5) = 8 * 2 ^ 64 + 4"
proof -
  let ?base = "[0, 0, 0, 7, 255, 255, 255, 255, 255, 255, 255, 255] :: bytes"
  have len: "length ?base = NONCE_LEN" by (simp add: NONCE_LEN_def)
  have base: "be_nat ?base = 8 * 2 ^ 64 - 1" by (simp add: be_nat_def)
  show ?thesis
    using chunk_nonce_is_96_bit_addition [OF len, of 5] unfolding base by simp
qed

text \<open>C10. Within one file no two chunks share a nonce, and the associated data of a chunk
  determines both the file digest and the chunk's index.\<close>

theorem chunk_nonces_and_aads_distinct:
  assumes "length base = NONCE_LEN" and "i \<noteq> j"
  shows "chunk_nonce base i \<noteq> chunk_nonce base j \<and> chunk_aad a i \<noteq> chunk_aad b j"
  using assms chunk_nonce_inject [of base i j] be64.enc_suffix_inject [of a i b j]
  by (auto simp: NONCE_LEN_def chunk_aad_def)

theorem chunk_nonces_and_aads_distinct_witness:
  "chunk_nonce (replicate 12 0) 0 \<noteq> chunk_nonce (replicate 12 0) 1 \<and>
   chunk_aad [] 0 \<noteq> chunk_aad [] 1"
  by (rule chunk_nonces_and_aads_distinct) (simp_all add: NONCE_LEN_def)

text \<open>C6. On every cleanly delivered plaintext and a willing writer, encryption succeeds, writes
  exactly the sealed frames of the plaintext's pieces in order, and returns their number, which
  is the plaintext length divided by the chunk size, rounded up.\<close>

theorem encrypt_chunks_writes_sealed_body:
  assumes "ciphers_lawful P" and "chunk_args key base aad" and "clean r" and "willing w"
  shows "\<exists>r' w' body. encrypt_chunks P r w key base algo aad tc =
      (Inr (word_of_nat ((length (pending r) + CHUNK_SIZE - 1) div CHUNK_SIZE)), r', w') \<and>
    sunk w' = sunk w @ body \<and>
    sealed_body P key base algo aad 0 (pieces (pending r)) body"
  using encrypt_loop_clean [OF assms, of algo 0] by (auto simp: encrypt_chunks_def length_pieces)

theorem encrypt_chunks_writes_sealed_body_witness:
  "\<exists>r' w'. encrypt_chunks demo_crypto [Data [1, 2], Fault Interrupted, Data [3]] open_sink
      sample_key sample_nonce Aes256Gcm sample_aad 1 = (Inr 1, r', w') \<and>
    sealed_body demo_crypto sample_key sample_nonce Aes256Gcm sample_aad 0 [[1, 2, 3]] (sunk w')"
proof -
  let ?r = "[Data [1, 2], Fault Interrupted, Data [3]]"
  have "clean ?r" by simp
  from encrypt_chunks_writes_sealed_body [OF demo_ciphers_lawful sample_args this open_sink_simps(2),
      of Aes256Gcm 1]
  obtain r' w' body where *: "encrypt_chunks demo_crypto ?r open_sink sample_key sample_nonce
      Aes256Gcm sample_aad 1 = (Inr (word_of_nat ((3 + CHUNK_SIZE - 1) div CHUNK_SIZE)), r', w')"
      "sunk w' = body"
      "sealed_body demo_crypto sample_key sample_nonce Aes256Gcm sample_aad 0 (pieces [1, 2, 3]) body"
    by auto
  have "pieces [1, 2, 3] = [[1, 2, 3]]" by (rule small_pieces) (simp_all add: CHUNK_SIZE_def)
  with * show ?thesis by (simp add: CHUNK_SIZE_def)
qed

text \<open>C5. Round trip of the stream: what encryption wrote, delivered in any fragmentation,
  decrypts under the same key, base nonce, algorithm and header digest to the plaintext, and both
  loops report the same number of chunks.\<close>

theorem chunk_stream_roundtrip:
  assumes "ciphers_lawful P" and "chunk_args key base aad"
    and "clean r1" and "willing w1"
    and "encrypt_chunks P r1 w1 key base algo aad tc = (res, r1', w1')"
    and "clean r2" and "pending r2 = drop (length (sunk w1)) (sunk w1')" and "willing w2"
  shows "\<exists>r2' w2'. decrypt_chunks P r2 w2 key base algo aad tc2 = (res, r2', w2') \<and>
    (\<exists>n. res = Inr n) \<and> sunk w2' = sunk w2 @ pending r1"
proof -
  obtain r w body where enc: "encrypt_loop P key base algo aad 0 r1 w1 =
      (Inr (word_of_nat (length (pieces (pending r1)))), r, w)" "sunk w = sunk w1 @ body"
      "sealed_body P key base algo aad 0 (pieces (pending r1)) body"
    using encrypt_loop_clean [OF assms(1-4), of algo 0] by auto
  with assms(5,7) have "pending r2 = body @ []" "res = Inr (word_of_nat (length (pieces (pending r1))))"
    by (auto simp: encrypt_chunks_def)
  with decrypt_loop_sealed [OF assms(1,2) piece_lengths_pieces enc(3) assms(6), of "[]" w2] assms(8)
  show ?thesis by (auto simp: decrypt_chunks_def)
qed

theorem chunk_stream_roundtrip_witness:
  "\<exists>r' w' r2 w2. encrypt_chunks demo_crypto [Data [1, 2, 3]] open_sink sample_key sample_nonce
      ChaCha20Poly1305 sample_aad 1 = (Inr 1, r', w') \<and>
    decrypt_chunks demo_crypto [Data (sunk w')] open_sink sample_key sample_nonce
      ChaCha20Poly1305 sample_aad 1 = (Inr 1, r2, w2) \<and> sunk w2 = [1, 2, 3]"
proof -
  have r: "clean [Data [1, 2, 3]]" by simp
  have p: "pieces [1, 2, 3] = [[1, 2, 3]]" by (rule small_pieces) (simp_all add: CHUNK_SIZE_def)
  from encrypt_loop_clean [OF demo_ciphers_lawful sample_args r open_sink_simps(2), of ChaCha20Poly1305 0]
  obtain r' w' where enc: "encrypt_chunks demo_crypto [Data [1, 2, 3]] open_sink sample_key
      sample_nonce ChaCha20Poly1305 sample_aad 1 = (Inr 1, r', w')" and "sunk w' \<noteq> []"
    using p by (auto simp: encrypt_chunks_def sealed_body_Cons simp flip: length_greater_0_conv)
  then have "clean [Data (sunk w')]" by simp
  from chunk_stream_roundtrip [OF demo_ciphers_lawful sample_args r open_sink_simps(2) enc this _
      open_sink_simps(2)] enc show ?thesis by auto
qed

text \<open>C4. Decryption accepts nothing but sealed bodies. With tidy ciphers, when the loop
  succeeds on a cleanly delivered stream, the stream was a concatenation of frames, each the
  encryption, under the nonce and associated data of its position, of the piece of plaintext
  written for it, followed by fewer than four bytes; the count returned is the number of frames.\<close>

theorem decrypt_accepts_only_sealed_bodies:
  assumes "ciphers_tidy P" and "clean r"
    and "decrypt_chunks P r w key base algo aad tc = (Inr n, r', w')"
  shows "\<exists>ms body tail. pending r = body @ tail \<and> length tail < 4 \<and>
    sealed_body P key base algo aad 0 ms body \<and> n = word_of_nat (length ms) \<and>
    sunk w' = sunk w @ concat ms"
  using decrypt_loop_accepts [OF assms(1,2) assms(3) [unfolded decrypt_chunks_def]] by simp

theorem decrypt_accepts_only_sealed_bodies_witness:
  "\<exists>r w r' w' ms body. encrypt_chunks demo_crypto [Data [1, 2, 3]] open_sink sample_key sample_nonce
      Aes256Gcm sample_aad 1 = (Inr 1, r, w) \<and>
    decrypt_chunks demo_crypto [Data (sunk w @ [9])] open_sink sample_key sample_nonce Aes256Gcm
      sample_aad 1 = (Inr 1, r', w') \<and>
    sunk w @ [9] = body @ drop (length body) (sunk w @ [9]) \<and>
    sealed_body demo_crypto sample_key sample_nonce Aes256Gcm sample_aad 0 ms body \<and>
    1 = (word_of_nat (length ms) :: u64) \<and> concat ms = [1, 2, 3]"
proof -
  have p: "pieces [1, 2, 3] = [[1, 2, 3]]" by (rule small_pieces) (simp_all add: CHUNK_SIZE_def)
  from encrypt_loop_clean [OF demo_ciphers_lawful sample_args _ open_sink_simps(2), of "[Data [1, 2, 3]]" Aes256Gcm 0]
  obtain r w where enc: "encrypt_chunks demo_crypto [Data [1, 2, 3]] open_sink sample_key sample_nonce
      Aes256Gcm sample_aad 1 = (Inr 1, r, w)"
    and body: "sealed_body demo_crypto sample_key sample_nonce Aes256Gcm sample_aad 0 [[1, 2, 3]] (sunk w)"
    using p by (auto simp: encrypt_chunks_def)
  let ?r = "[Data (sunk w @ [9])]"
  have c: "clean ?r" by simp
  have "piece_lengths [[1, 2, 3]]" using piece_lengths_pieces [of "[1, 2, 3]"] by (simp add: p)
  from decrypt_loop_sealed [OF demo_ciphers_lawful sample_args this body c, of "[9]" open_sink]
  obtain r' w' where dec: "decrypt_chunks demo_crypto ?r open_sink sample_key sample_nonce Aes256Gcm
      sample_aad 1 = (Inr 1, r', w')" "sunk w' = [1, 2, 3]"
    by (auto simp: decrypt_chunks_def)
  from decrypt_accepts_only_sealed_bodies [OF demo_ciphers_tidy c dec(1)] obtain ms body where
    "sunk w @ [9] = body @ drop (length body) (sunk w @ [9])" "1 = (word_of_nat (length ms) :: u64)"
    "sealed_body demo_crypto sample_key sample_nonce Aes256Gcm sample_aad 0 ms body" "concat ms = [1, 2, 3]"
    using dec(2) by fastforce
  with enc dec(1) show ?thesis by blast
qed

text \<open>C9. Truncation is always noticed, and exactly how: of a body that encryption wrote, take the
  first \<open>k\<close> bytes, fewer than all. Frames of full chunks have 20 bytes more than the chunk, so
  \<open>k\<close> bytes hold \<open>j\<close> complete frames and a rest. When the rest is too short for a length
  field, decryption returns the count \<open>j\<close>, which is not the count that encryption returned;
  otherwise it fails with the end-of-file error. In both cases it has written the first \<open>j\<close>
  chunks of the plaintext and nothing else.\<close>

theorem truncated_body_never_matches:
  assumes "ciphers_lawful P" and "chunk_args key base aad"
    and "clean r1" and "willing w1" and "length (pending r1) < 2 ^ 64"
    and "encrypt_chunks P r1 w1 key base algo aad tc = (Inr n, r1', w1')"
    and "clean r2" and "pending r2 = take k (drop (length (sunk w1)) (sunk w1'))"
    and "k < length (sunk w1') - length (sunk w1)" and "willing w2"
    and "j = k div (CHUNK_SIZE + 20)"
  shows "word_of_nat j \<noteq> n \<and> (\<exists>r2' w2'. decrypt_chunks P r2 w2 key base algo aad tc2 =
      (if k mod (CHUNK_SIZE + 20) < 4 then Inr (word_of_nat j) else Inl (Io UnexpectedEof), r2', w2') \<and>
      sunk w2' = sunk w2 @ take (j * CHUNK_SIZE) (pending r1))"
proof -
  let ?ms = "pieces (pending r1)"
  have small: "length ?ms < 2 ^ 64" using assms(5) length_pieces_le [of "pending r1"] by linarith
  obtain r w body where enc: "encrypt_loop P key base algo aad 0 r1 w1 =
      (Inr (word_of_nat (length ?ms)), r, w)" "sunk w = sunk w1 @ body"
      "sealed_body P key base algo aad 0 ?ms body"
    using encrypt_loop_clean [OF assms(1-4), of algo 0] by auto
  with assms(6,8,9) have cut: "pending r2 = take k body" "k < length body"
      "n = word_of_nat (length ?ms)"
    by (auto simp: encrypt_chunks_def)
  have "length body = length (pending r1) + 20 * length ?ms"
    using length_sealed_body [OF assms(1,2) piece_lengths_pieces enc(3)] by simp
  with cut(2) have at: "cut_at ?ms k = (j, k mod (CHUNK_SIZE + 20))"
      "concat (take j ?ms) = take (j * CHUNK_SIZE) (pending r1)"
    using cut_at_pieces [of k "pending r1"] assms(11) by simp_all
  note * = decrypt_loop_cut [OF assms(1,2) piece_lengths_pieces enc(3) assms(7) cut(1,2) assms(10) at(1)]
  then have "word_of_nat j \<noteq> n" using small cut(3) by (simp add: u64_of_nat_inject)
  with * at(2) show ?thesis by (auto simp: decrypt_chunks_def)
qed

theorem truncated_body_never_matches_witness:
  "\<exists>r' w'. encrypt_chunks demo_crypto [Data [1, 2, 3]] open_sink sample_key sample_nonce
      Aes256Gcm sample_aad 1 = (Inr 1, r', w') \<and>
    fst (decrypt_chunks demo_crypto [Data (take 3 (sunk w'))] open_sink sample_key sample_nonce
      Aes256Gcm sample_aad 1) = Inr 0 \<and>
    fst (decrypt_chunks demo_crypto [Data (take 7 (sunk w'))] open_sink sample_key sample_nonce
      Aes256Gcm sample_aad 1) = Inl (Io UnexpectedEof)"
proof -
  have r: "clean [Data [1, 2, 3]]" and small: "length (pending [Data [1, 2, 3]]) < 2 ^ 64" by simp_all
  have p: "pieces [1, 2, 3] = [[1, 2, 3]]" by (rule small_pieces) (simp_all add: CHUNK_SIZE_def)
  obtain ct where ct: "seal demo_crypto sample_key sample_nonce Aes256Gcm sample_aad 0 [1, 2, 3] = Inr ct"
      "length ct = 19"
    using seal_lawful [OF demo_ciphers_lawful sample_args, of "[1, 2, 3]" Aes256Gcm 0]
    by (auto simp: CHUNK_SIZE_def)
  from encrypt_loop_clean [OF demo_ciphers_lawful sample_args r open_sink_simps(2), of Aes256Gcm 0]
  obtain r' w' where enc: "encrypt_chunks demo_crypto [Data [1, 2, 3]] open_sink sample_key
      sample_nonce Aes256Gcm sample_aad 1 = (Inr 1, r', w')" and len: "length (sunk w') = 23"
    using p ct by (auto simp: encrypt_chunks_def sealed_body_Cons)
  have cut: "clean [Data (take k (sunk w'))]" if "0 < k" for k
    using len that by (auto simp flip: length_greater_0_conv)
  note cut_short = truncated_body_never_matches [OF demo_ciphers_lawful sample_args r open_sink_simps(2) small enc
      _ _ _ open_sink_simps(2) refl, where ?tc2.0 = 1]
  from cut_short [OF cut, of 3 3] cut_short [OF cut, of 7 7] len
  show ?thesis using enc by (auto simp: CHUNK_SIZE_def)
qed

text \<open>The length field of every frame that encryption writes is exact and within the cap
  that decryption enforces: the cast to \<open>u32\<close> loses nothing, and the sanity check on the wire
  length never rejects a chunk this program wrote.\<close>

lemma frame_length_exact_and_within_cap:
  assumes "ciphers_lawful P" and "chunk_args key base aad" and "length plain \<le> CHUNK_SIZE"
    and "encrypt_chunk P plain key (chunk_nonce base i) algo (chunk_aad aad i) = Inr ct"
  shows "unat (word_of_nat (length ct) :: u32) = length ct \<and> length ct = length plain + 16 \<and>
    length ct \<le> MAX_CHUNK_WIRE_LEN"
proof -
  have len: "length ct = length plain + 16"
    using seal_lawful [OF assms(1-3), of algo i] assms(4) by (auto simp: seal_def)
  then have cap: "length ct \<le> MAX_CHUNK_WIRE_LEN" "length ct < 2 ^ 32"
    using assms(3) by (simp_all add: MAX_CHUNK_WIRE_LEN_def CHUNK_SIZE_def)
  then have "unat (word_of_nat (length ct) :: u32) = length ct" by (simp only: unat_of_nat) simp
  with len cap show ?thesis by blast
qed

text \<open>C40. Up to three bytes appended to the file are not noticed: a body followed by fewer than
  four bytes decrypts to the same plaintext with the same chunk count as the body alone, because
  a short length field is taken for the end of the file.\<close>

theorem trailing_bytes_are_ignored:
  assumes "ciphers_lawful P" and "chunk_args key base aad"
    and "clean r1" and "willing w1"
    and "encrypt_chunks P r1 w1 key base algo aad tc = (res, r1', w1')"
    and "clean r2" and "pending r2 = drop (length (sunk w1)) (sunk w1') @ tail"
    and "length tail < 4" and "willing w2"
  shows "\<exists>r2' w2'. decrypt_chunks P r2 w2 key base algo aad tc2 = (res, r2', w2') \<and>
    (\<exists>n. res = Inr n) \<and> sunk w2' = sunk w2 @ pending r1"
proof -
  obtain r w body where enc: "encrypt_loop P key base algo aad 0 r1 w1 =
      (Inr (word_of_nat (length (pieces (pending r1)))), r, w)" "sunk w = sunk w1 @ body"
      "sealed_body P key base algo aad 0 (pieces (pending r1)) body"
    using encrypt_loop_clean [OF assms(1-4), of algo 0] by auto
  with assms(5,7) have "pending r2 = body @ tail" "res = Inr (word_of_nat (length (pieces (pending r1))))"
    by (auto simp: encrypt_chunks_def)
  with decrypt_loop_sealed [OF assms(1,2) piece_lengths_pieces enc(3) assms(6) _ assms(8,9)]
  show ?thesis by (auto simp: decrypt_chunks_def)
qed

theorem trailing_bytes_are_ignored_witness:
  "\<exists>r' w' r2 w2. encrypt_chunks demo_crypto [Data [1, 2, 3]] open_sink sample_key sample_nonce
      Aes256Gcm sample_aad 1 = (Inr 1, r', w') \<and>
    decrypt_chunks demo_crypto [Data (sunk w' @ [0xDE, 0xAD, 0xBE])] open_sink sample_key
      sample_nonce Aes256Gcm sample_aad 1 = (Inr 1, r2, w2) \<and> sunk w2 = [1, 2, 3]"
proof -
  have r: "clean [Data [1, 2, 3]]" by simp
  have p: "pieces [1, 2, 3] = [[1, 2, 3]]" by (rule small_pieces) (simp_all add: CHUNK_SIZE_def)
  from encrypt_loop_clean [OF demo_ciphers_lawful sample_args r open_sink_simps(2), of Aes256Gcm 0]
  obtain r' w' where enc: "encrypt_chunks demo_crypto [Data [1, 2, 3]] open_sink sample_key
      sample_nonce Aes256Gcm sample_aad 1 = (Inr 1, r', w')"
    using p by (auto simp: encrypt_chunks_def)
  have "clean [Data (sunk w' @ [0xDE, 0xAD, 0xBE])]" by simp
  from trailing_bytes_are_ignored [OF demo_ciphers_lawful sample_args r open_sink_simps(2) enc this _
      _ open_sink_simps(2), of "[0xDE, 0xAD, 0xBE]"] enc show ?thesis by auto
qed

end
