(* ===== verification/Cry_Files.thy ===== *)
theory Cry_Files
  imports Cry_World Cry_Chunks
begin

text \<open>
  \<open>encrypt_file\<close> and \<open>decrypt_file\<close> of \<open>src/cipher.rs\<close>, over every world: the
  overwrite guard, the temporary sibling, the header, the streaming loops, the chunk-count
  check and the rename. Progress output is left out.
\<close>

section \<open>The overwrite guard\<close>

definition ensure_writable :: "string \<Rightarrow> bool \<Rightarrow> world \<Rightarrow> (cry_error + unit) \<times> world" where
  "ensure_writable path force w =
    (let (present, w) = path_exists path w
     in if present \<and> \<not> force then (Inl (FileExists path), w) else (Inr (), w))"

text \<open>
  The \<open>match result\<close> both operations end with: rename on success, remove the temporary file
  on failure, and read the length of the output for the summary.
\<close>

definition finish_output ::
  "string \<Rightarrow> string \<Rightarrow> (cry_error + 'a) \<Rightarrow> world \<Rightarrow> (cry_error + unit) \<times> world" where
  "finish_output tmp_path dest result w =
    (case result of
       Inr _ \<Rightarrow>
         and_then (map_err Io (rename tmp_path dest w)) (\<lambda>_ w.
         and_then (map_err Io (metadata_len dest w)) (\<lambda>_ w.
         (Inr (), w)))
     | Inl e \<Rightarrow> (Inl e, snd (remove_file tmp_path w)))"

section \<open>Encryption\<close>

text \<open>The stream part of the closure: header, chunks, flush, and the check of the count.\<close>

definition encrypt_stream ::
  "crypto \<Rightarrow> header \<Rightarrow> bytes \<Rightarrow> bytes \<Rightarrow> reader \<Rightarrow> writer \<Rightarrow> (cry_error + unit) \<times> writer" where
  "encrypt_stream P header key aad reader writer =
     and_then (header_write P header key writer) (\<lambda>_ writer.
     let (res, reader, writer) =
           encrypt_chunks P reader writer key (hdr_nonce header) (hdr_algo header) aad
             (hdr_chunk_count header)
     in and_then (res, writer) (\<lambda>actual_chunks writer.
        and_then (map_err Io (flush writer)) (\<lambda>_ writer.
        if actual_chunks \<noteq> hdr_chunk_count header
        then (Inl (Truncated (hdr_chunk_count header) actual_chunks), writer)
        else (Inr (), writer))))"

text \<open>
  The closure. Creating the temporary file empties the opened input when both are one file.
  The file receives what the writer took, whether the run succeeds or not.
\<close>

definition encrypt_to_tmp ::
  "crypto \<Rightarrow> string \<Rightarrow> string \<Rightarrow> header \<Rightarrow> bytes \<Rightarrow> bytes \<Rightarrow> world \<Rightarrow> (cry_error + unit) \<times> world" where
  "encrypt_to_tmp P plain_path tmp_path header key aad w =
     and_then (map_err Io (file_open plain_path w)) (\<lambda>plain w.
     and_then (map_err Io (file_create tmp_path w)) (\<lambda>_ w.
     let reader = deliver w (if tmp_path = plain_path then [] else plain)
     in through_writer tmp_path (encrypt_stream P header key aad reader) w))"

text \<open>From the header on, once the key is there.\<close>

definition encrypt_with_key ::
  "crypto \<Rightarrow> string \<Rightarrow> string \<Rightarrow> bytes \<Rightarrow> header \<Rightarrow> world \<Rightarrow> (cry_error + unit) \<times> world" where
  "encrypt_with_key P plain_path cipher_path key header w =
    (let aad = header_aad P header;
         tmp_path = with_extension cipher_path ''cry.tmp'';
         (result, w) = encrypt_to_tmp P plain_path tmp_path header key aad w
     in finish_output tmp_path cipher_path result w)"

definition encrypt_file ::
  "crypto \<Rightarrow> string \<Rightarrow> string \<Rightarrow> bytes \<Rightarrow> algorithm \<Rightarrow> bool \<Rightarrow> world \<Rightarrow> (cry_error + unit) \<times> world" where
  "encrypt_file P plain_path cipher_path passphrase algorithm force w =
     and_then (ensure_writable cipher_path force w) (\<lambda>_ w.
     and_then (map_err Io (metadata_len plain_path w)) (\<lambda>plain_len w.
     let chunk_count = div_ceil plain_len (word_of_nat CHUNK_SIZE);
         (salt, w) = fill_bytes SALT_LEN w;
         (nonce_bytes, w) = fill_bytes NONCE_LEN w
     in and_then (derive_key P passphrase salt, w) (\<lambda>key w.
        encrypt_with_key P plain_path cipher_path key
          \<lparr>hdr_algo = algorithm, hdr_salt = salt, hdr_nonce = nonce_bytes,
           hdr_chunk_count = chunk_count\<rparr> w)))"

section \<open>Decryption\<close>

definition decrypt_stream ::
  "crypto \<Rightarrow> header \<Rightarrow> bytes \<Rightarrow> bytes \<Rightarrow> reader \<Rightarrow> writer \<Rightarrow> (cry_error + u64) \<times> writer" where
  "decrypt_stream P header key aad reader writer =
    (let (res, reader, writer) =
           decrypt_chunks P reader writer key (hdr_nonce header) (hdr_algo header) aad
             (hdr_chunk_count header)
     in and_then (res, writer) (\<lambda>actual_chunks writer.
        and_then (map_err Io (flush writer)) (\<lambda>_ writer.
        if actual_chunks \<noteq> hdr_chunk_count header
        then (Inl (Truncated (hdr_chunk_count header) actual_chunks), writer)
        else (Inr actual_chunks, writer))))"

text \<open>
  When the temporary file is the input itself, creating it leaves of the input only what the
  reader has already buffered.
\<close>

definition rest_of_input :: "world \<Rightarrow> bool \<Rightarrow> reader \<Rightarrow> reader" where
  "rest_of_input w emptied reader =
     (if emptied then (case take (buffered w) (pending reader) of [] \<Rightarrow> [] | bs \<Rightarrow> [Data bs])
      else reader)"

definition decrypt_to_tmp ::
  "crypto \<Rightarrow> string \<Rightarrow> string \<Rightarrow> header \<Rightarrow> bytes \<Rightarrow> bytes \<Rightarrow> reader \<Rightarrow> world \<Rightarrow> (cry_error + u64) \<times> world" where
  "decrypt_to_tmp P cipher_path tmp_path header key aad reader w =
     and_then (map_err Io (file_create tmp_path w)) (\<lambda>_ w.
     let reader = rest_of_input w (tmp_path = cipher_path) reader
     in through_writer tmp_path (decrypt_stream P header key aad reader) w)"

definition SALT_OFFSET :: nat where
  "SALT_OFFSET = 4 + 1"

definition decrypt_with_key ::
  "crypto \<Rightarrow> string \<Rightarrow> string \<Rightarrow> bytes \<Rightarrow> bytes \<Rightarrow> reader \<Rightarrow> world \<Rightarrow> (cry_error + unit) \<times> world" where
  "decrypt_with_key P plain_path cipher_path key raw_header reader w =
     and_then (fst (header_read P key [Data raw_header]), w) (\<lambda>header w.
     let aad = header_aad P header;
         tmp_path = with_extension plain_path ''plain.tmp'';
         (result, w) = decrypt_to_tmp P cipher_path tmp_path header key aad reader w
     in finish_output tmp_path plain_path result w)"

definition decrypt_file ::
  "crypto \<Rightarrow> string \<Rightarrow> string \<Rightarrow> bytes \<Rightarrow> bool \<Rightarrow> world \<Rightarrow> (cry_error + unit) \<times> world" where
  "decrypt_file P plain_path cipher_path passphrase force w =
     and_then (ensure_writable plain_path force w) (\<lambda>_ w.
     and_then (map_err Io (file_open cipher_path w)) (\<lambda>cipher w.
     and_then (map_err Io (syscall w)) (\<lambda>_ w.
     let (res, reader) = map_err (\<lambda>_. InvalidFormat ''File too short to contain a valid header'')
           (read_exact HEADER_LEN (deliver w cipher))
     in and_then (res, w) (\<lambda>raw_header w.
        and_then (derive_key P passphrase (take SALT_LEN (drop SALT_OFFSET raw_header)), w) (\<lambda>key w.
        decrypt_with_key P plain_path cipher_path key raw_header reader w)))))"

section \<open>The pieces of a run\<close>

lemma touches_ensure_writable [frame]: "touches S w (snd (ensure_writable p force w))"
  using touches_path_exists [of S w p]
  by (auto simp: ensure_writable_def Let_def split: prod.splits)

lemma touches_finish_output [frame]:
  "tmp \<in> S \<Longrightarrow> entry dest \<subseteq> S \<Longrightarrow> touches S w (snd (finish_output tmp dest result w))"
  unfolding finish_output_def
  by (cases result) (auto intro!: touches_and_then simp: frame)

lemma rename_Inr:
  assumes "rename a b w = (Inr u, w')"
  shows "\<exists>e. files w a = Some e \<and> files w' = (files w)(a := None, b := Some e)"
  using assms
  by (auto simp: rename_def and_then_Inr_iff dest!: entry_call_Inr split: option.splits)

lemma rename_Inl:
  assumes "rename a b w = (Inl x, w')"
  shows "files w' = files w"
  using assms touches_none [OF touches_entry_call [of "{}" w b]]
  by (auto simp: rename_def and_then_Inl_iff split: option.splits dest!: entry_call_Inr)

text \<open>
  What the end of a run does to the two files: a success moves the temporary file onto the
  output; anything else leaves the output as it was or, when only the final length query
  fails, as after a success.
\<close>

lemma finish_output_dest:
  assumes "finish_output tmp dest result w = (res, w')" and "dest \<notin> entry tmp"
  shows "(files w' dest = files w dest \<or>
      (\<exists>x e. result = Inr x \<and> files w tmp = Some e \<and> files w' dest = Some e)) \<and>
    (res = Inr () \<longrightarrow> (\<exists>x e. result = Inr x \<and> files w tmp = Some e \<and> files w' dest = Some e))"
proof (cases result)
  case (Inl e)
  have "touches (entry tmp) w (snd (remove_file tmp w))" by (simp add: frame)
  with Inl assms show ?thesis by (auto simp: finish_output_def dest: touches_files)
next
  case (Inr x)
  obtain r s where run: "rename tmp dest w = (r, s)" by fastforce
  show ?thesis
  proof (cases r)
    case (Inl e)
    with Inr assms(1) run rename_Inl show ?thesis by (auto simp: finish_output_def)
  next
    case r: (Inr u)
    from rename_Inr [OF run [unfolded r]] obtain e where
      "files w tmp = Some e" "files s dest = Some e" by auto
    moreover have "files (snd (metadata_len dest s)) = files s"
      by (rule touches_none) (simp add: frame)
    ultimately show ?thesis
      using assms(1) Inr run r
      by (cases "metadata_len dest s")
        (auto simp: finish_output_def and_then_def map_err_def split: sum.splits)
  qed
qed

text \<open>What a successful stream wrote.\<close>

definition sealed_file ::
  "crypto \<Rightarrow> bytes \<Rightarrow> header \<Rightarrow> bytes list \<Rightarrow> bytes \<Rightarrow> bytes \<Rightarrow> bool" where
  "sealed_file P key h ms body tail \<longleftrightarrow>
     sealed_body P key (hdr_nonce h) (hdr_algo h) (header_aad P h) 0 ms body \<and>
     hdr_chunk_count h = word_of_nat (length ms) \<and> length tail < 4"

definition encrypted_image ::
  "crypto \<Rightarrow> bytes \<Rightarrow> bytes list \<Rightarrow> bytes \<Rightarrow> bool" where
  "encrypted_image P pass ms bs \<longleftrightarrow>
     (\<exists>h key body tail. header_wf h \<and> derive_key P pass (hdr_salt h) = Inr key \<and>
        sealed_file P key h ms body tail \<and> bs = header_image P key h @ body @ tail)"

lemma encrypt_stream_Inr:
  assumes "encrypt_stream P h key (header_aad P h) r w = (Inr u, w')"
  shows "\<exists>ms body. sunk w' = sunk w @ header_image P key h @ body \<and>
    sealed_file P key h ms body [] \<and> piece_lengths ms"
proof -
  obtain v w1 where w1: "header_write P h key w = (Inr v, w1)"
    using assms by (auto simp: encrypt_stream_def and_then_Inr_iff)
  obtain res r2 w2 where enc: "encrypt_chunks P r w1 key (hdr_nonce h) (hdr_algo h)
      (header_aad P h) (hdr_chunk_count h) = (res, r2, w2)" by (metis prod_cases3)
  with assms w1 obtain v' where ok: "res = Inr (hdr_chunk_count h)" "flush w2 = (Inr v', w')"
    by (auto simp: encrypt_stream_def result_iffs split: if_splits)
  from encrypt_loop_Inr enc ok(1) obtain ms body where
    "sunk w2 = sunk w1 @ body"
    "sealed_body P key (hdr_nonce h) (hdr_algo h) (header_aad P h) 0 ms body"
    "hdr_chunk_count h = word_of_nat (length ms)" "piece_lengths ms"
    unfolding encrypt_chunks_def by fastforce
  with header_write_sunk [OF w1] flush_Inr [OF ok(2)] show ?thesis
    by (auto simp: sealed_file_def)
qed

lemma encrypt_stream_clean:
  assumes "ciphers_lawful P" "hashes_sized P" "header_wf h" "length key = KEY_LEN"
    and "clean r" "willing w" "hdr_chunk_count h = word_of_nat (length (pieces (pending r)))"
  shows "\<exists>w' body. encrypt_stream P h key (header_aad P h) r w = (Inr (), w') \<and>
    sunk w' = sunk w @ header_image P key h @ body \<and>
    sealed_file P key h (pieces (pending r)) body []"
proof -
  have args: "chunk_args key (hdr_nonce h) (header_aad P h)"
    using assms(2-4) by (simp add: chunk_args_def header_wf_def header_aad_def hashes_sized_def)
  obtain w1 where w1: "header_write P h key w = (Inr (), w1)" "willing w1"
      "sunk w1 = sunk w @ header_image P key h"
    using header_write_willing [OF assms(6)] by blast
  obtain r2 w2 body where w2: "encrypt_chunks P r w1 key (hdr_nonce h) (hdr_algo h)
        (header_aad P h) (hdr_chunk_count h) = (Inr (hdr_chunk_count h), r2, w2)"
      "willing w2" "sunk w2 = sunk w1 @ body"
      "sealed_body P key (hdr_nonce h) (hdr_algo h) (header_aad P h) 0 (pieces (pending r)) body"
    using encrypt_loop_clean [OF assms(1) args assms(5) w1(2), of "hdr_algo h" 0] assms(7)
    by (auto simp: encrypt_chunks_def)
  obtain w3 where w3: "flush w2 = (Inr (), w3)" "sunk w3 = sunk w2"
    using flush_willing [OF w2(2)] by blast
  show ?thesis
    using w1 w2 w3 assms(7) by (auto simp: encrypt_stream_def sealed_file_def)
qed

section \<open>Outcomes of a run\<close>

text \<open>
  Whatever fails, the output is either what it was or complete; a reported success means
  complete.
\<close>

definition outcome ::
  "(bytes \<Rightarrow> bool) \<Rightarrow> string \<Rightarrow> world \<Rightarrow> (cry_error + unit) \<times> world \<Rightarrow> bool" where
  "outcome good dest w m \<longleftrightarrow>
     (files (snd m) dest = files w dest \<or> (\<exists>e. files (snd m) dest = Some e \<and> good (contents e))) \<and>
     (fst m = Inr () \<longrightarrow> (\<exists>e. files (snd m) dest = Some e \<and> good (contents e)))"

lemma outcome_files:
  "files v = files w \<Longrightarrow> outcome good dest v m = outcome good dest w m"
  by (simp add: outcome_def)

lemma outcome_and_then:
  assumes "touches {} w (snd m)" and "\<And>x s. m = (Inr x, s) \<Longrightarrow> outcome good dest s (k x s)"
  shows "outcome good dest w (and_then m k)"
proof (cases m)
  case (Pair r s)
  have same: "files s = files w" using assms(1) Pair touches_none by auto
  show ?thesis
  proof (cases r)
    case (Inl e)
    with Pair same show ?thesis by (simp add: outcome_def)
  next
    case (Inr x)
    with Pair assms(2) show ?thesis by (simp add: outcome_files [OF same, symmetric])
  qed
qed

lemma outcome_finish:
  assumes "touches (entry tmp) w (snd m)" and "dest \<notin> entry tmp"
    and "\<And>x. fst m = Inr x \<Longrightarrow> \<exists>e. files (snd m) tmp = Some e \<and> good (contents e)"
  shows "outcome good dest w (finish_output tmp dest (fst m) (snd m))"
proof -
  obtain res w' where run: "finish_output tmp dest (fst m) (snd m) = (res, w')" by fastforce
  have "files (snd m) dest = files w dest" using assms(1,2) by (rule touches_files)
  with finish_output_dest [OF run assms(2)] assms(3) show ?thesis
    unfolding outcome_def run fst_conv snd_conv by (metis option.inject)
qed

text \<open>
  The contract of an operation that replaces a file: nothing else but its temporary sibling is
  touched, the outcome is as above, and without permission to overwrite an existing output is
  refused before anything happens.
\<close>

locale atomic_output =
  fixes op :: "'a \<Rightarrow> string \<Rightarrow> bool \<Rightarrow> world \<Rightarrow> (cry_error + unit) \<times> world"
    and tmp :: "string \<Rightarrow> string"
    and good :: "'a \<Rightarrow> string \<Rightarrow> world \<Rightarrow> bytes \<Rightarrow> bool"
  assumes op_touches: "touches (insert (tmp dest) (entry dest)) w (snd (op a dest force w))"
    and op_outcome: "outcome (good a dest w) dest w (op a dest force w)"
    and op_guard: "fst (path_exists dest w) \<Longrightarrow>
      op a dest False w = (Inl (FileExists dest), snd (path_exists dest w))"
begin

lemma others_untouched: "q \<noteq> dest \<Longrightarrow> q \<noteq> tmp dest \<Longrightarrow> files (snd (op a dest force w)) q = files w q"
  using op_touches [of dest w a force] by (auto simp: touches_def entry_def split: if_splits)

lemma old_or_complete:
  "files (snd (op a dest force w)) dest = files w dest \<or>
   (\<exists>e. files (snd (op a dest force w)) dest = Some e \<and> good a dest w (contents e))"
  using op_outcome [of a dest w force] by (simp add: outcome_def)

lemma success_complete:
  "op a dest force w = (Inr (), w') \<Longrightarrow> \<exists>e. files w' dest = Some e \<and> good a dest w (contents e)"
  using op_outcome [of a dest w force] by (auto simp: outcome_def)

lemma refuses_existing:
  "fst (path_exists dest w) \<Longrightarrow>
     fst (op a dest False w) = Inl (FileExists dest) \<and> files (snd (op a dest False w)) = files w"
  using op_guard [of dest w a] touches_none [OF touches_path_exists] by simp

end

lemma guard_refuses:
  "fst (path_exists p w) \<Longrightarrow>
     and_then (ensure_writable p False w) k = (Inl (FileExists p), snd (path_exists p w))"
  by (auto simp: ensure_writable_def Let_def split: prod.splits)

subsection \<open>Encryption\<close>

lemma touches_encrypt_to_tmp [frame]:
  "entry tmp \<subseteq> S \<Longrightarrow> touches S w (snd (encrypt_to_tmp P plain tmp h key aad w))"
  unfolding encrypt_to_tmp_def Let_def
  by (intro touches_and_then) (auto simp: frame map_err_Inr_iff dest!: file_create_Inr)

lemma encrypt_to_tmp_Inr:
  assumes "encrypt_to_tmp P plain tmp h key (header_aad P h) w = (Inr u, w')"
    and "header_wf h" and "derive_key P pass (hdr_salt h) = Inr key"
  shows "\<exists>e ms. files w' tmp = Some e \<and> encrypted_image P pass ms (contents e)"
proof -
  obtain r v s where create: "file_create tmp v = (Inr (), s)"
    and run: "through_writer tmp (encrypt_stream P h key (header_aad P h) r) s = (Inr u, w')"
    using assms(1) by (auto simp: encrypt_to_tmp_def Let_def result_iffs)
  from file_create_Inr [OF create] obtain e where "files s tmp = Some e" by blast
  from through_writer_Inr [OF run this] obtain wr wr' where wr: "sunk wr = []"
    "encrypt_stream P h key (header_aad P h) r wr = (Inr u, wr')"
    "files w' tmp = Some (e\<lparr>contents := sunk wr'\<rparr>)" by blast
  from encrypt_stream_Inr [OF wr(2)] wr(1) obtain ms body where
    "sunk wr' = header_image P key h @ body @ []" "sealed_file P key h ms body []" by auto
  then have "encrypted_image P pass ms (sunk wr')"
    unfolding encrypted_image_def using assms(2,3) by blast
  with wr(3) show ?thesis by auto
qed

abbreviation cry_tmp :: "string \<Rightarrow> string" where
  "cry_tmp p \<equiv> with_extension p ''cry.tmp''"

abbreviation plain_tmp :: "string \<Rightarrow> string" where
  "plain_tmp p \<equiv> with_extension p ''plain.tmp''"

lemma tmp_entries [simp]: "p \<notin> entry (cry_tmp p)" "p \<notin> entry (plain_tmp p)"
  by (simp_all add: with_extension_entry)

lemma fill_bytes_files [simp]: "files (snd (fill_bytes n w)) = files w"
  by (simp add: fill_bytes_def)

lemma touches_encrypt_with_key [frame]:
  "touches (insert (cry_tmp c) (entry c)) w (snd (encrypt_with_key P plain c key h w))"
  unfolding encrypt_with_key_def Let_def split_beta
  by (rule touches_trans [OF touches_encrypt_to_tmp touches_finish_output]) (auto simp: entry_subset)

lemma encrypt_file_touches:
  "touches (insert (cry_tmp c) (entry c)) w (snd (encrypt_file P plain c pass algo force w))"
proof -
  have fill: "touches S w (snd (fill_bytes NONCE_LEN (snd (fill_bytes SALT_LEN w))))" for S w
    by (rule touches_trans) (rule touches_fill_bytes)+
  show ?thesis
    unfolding encrypt_file_def Let_def split_beta
    by (intro touches_and_then) (simp_all add: frame fill)
qed

lemma encrypt_with_key_outcome:
  assumes "header_wf h" "derive_key P pass (hdr_salt h) = Inr key"
  shows "outcome (\<lambda>bs. \<exists>ms. encrypted_image P pass ms bs) c w (encrypt_with_key P plain c key h w)"
  unfolding encrypt_with_key_def Let_def split_beta
proof (rule outcome_finish)
  let ?m = "encrypt_to_tmp P plain (cry_tmp c) h key (header_aad P h) w"
  show "touches (entry (cry_tmp c)) w (snd ?m)" by (simp add: touches_encrypt_to_tmp)
  show "\<exists>e. files (snd ?m) (cry_tmp c) = Some e \<and> (\<exists>ms. encrypted_image P pass ms (contents e))"
    if "fst ?m = Inr x" for x
    using encrypt_to_tmp_Inr [OF _ assms] that by (metis prod.collapse)
qed simp

lemma encrypt_file_outcome:
  "outcome (\<lambda>bs. \<exists>ms. encrypted_image P pass ms bs) c w (encrypt_file P plain c pass algo force w)"
proof -
  have fill: "touches {} w (snd (fill_bytes NONCE_LEN (snd (fill_bytes SALT_LEN w))))" for w
    by (rule touches_trans) (rule touches_fill_bytes)+
  show ?thesis
    unfolding encrypt_file_def Let_def split_beta
    by (intro outcome_and_then)
      (auto simp: frame fill header_wf_def intro: encrypt_with_key_outcome)
qed

subsection \<open>Decryption\<close>

text \<open>A faithful delivery of file contents: in any pieces, but all of them.\<close>

definition faithful :: "world \<Rightarrow> bool" where
  "faithful w \<longleftrightarrow> (\<forall>bs. clean (deliver w bs) \<and> pending (deliver w bs) = bs)"

lemma faithful_touches: "touches S v w \<Longrightarrow> faithful w = faithful v"
  by (simp add: faithful_def touches_def)

text \<open>Reads may also fail for good: then the contents need not arrive, but no read ends the file early.\<close>

definition truthful :: "world \<Rightarrow> bool" where
  "truthful w \<longleftrightarrow> (\<forall>bs. breaks (deliver w bs) \<or> clean (deliver w bs) \<and> pending (deliver w bs) = bs)"

lemma truthful_touches: "touches S v w \<Longrightarrow> truthful w = truthful v"
  by (simp add: truthful_def touches_def)

lemma faithful_truthful: "faithful w \<Longrightarrow> truthful w"
  by (simp add: faithful_def truthful_def)

lemma rest_of_input_clean:
  "clean r \<Longrightarrow> clean (rest_of_input w b r) \<and>
     (\<exists>k. pending (rest_of_input w b r) = take k (pending r) \<and> (\<not> b \<longrightarrow> k = length (pending r)))"
proof (cases b)
  case True
  then show "clean r \<Longrightarrow> ?thesis"
    by (intro conjI exI [of _ "buffered w"]) (auto simp: rest_of_input_def split: list.splits)
next
  case False
  then show "clean r \<Longrightarrow> ?thesis"
    by (intro conjI exI [of _ "length (pending r)"]) (simp_all add: rest_of_input_def)
qed

lemma decrypt_stream_Inr:
  assumes "ciphers_tidy P" "clean r"
    and "decrypt_stream P h key (header_aad P h) r w = (Inr n, w')"
  shows "\<exists>ms body tail. pending r = body @ tail \<and> sealed_file P key h ms body tail \<and>
    sunk w' = sunk w @ concat ms"
proof -
  obtain res r2 w2 where dec: "decrypt_chunks P r w key (hdr_nonce h) (hdr_algo h)
      (header_aad P h) (hdr_chunk_count h) = (res, r2, w2)" by (metis prod_cases3)
  with assms(3) obtain v' where ok: "res = Inr (hdr_chunk_count h)" "flush w2 = (Inr v', w')"
    by (auto simp: decrypt_stream_def result_iffs split: if_splits)
  have "decrypt_loop P key (hdr_nonce h) (hdr_algo h) (header_aad P h) 0 r w =
      (Inr (hdr_chunk_count h), r2, w2)" using dec ok(1) by (simp add: decrypt_chunks_def)
  from decrypt_loop_accepts [OF assms(1,2) this] obtain ms body tail where
    "pending r = body @ tail" "length tail < 4"
    "sealed_body P key (hdr_nonce h) (hdr_algo h) (header_aad P h) 0 ms body"
    "hdr_chunk_count h = word_of_nat (length ms)" "sunk w2 = sunk w @ concat ms"
    by auto
  with flush_Inr [OF ok(2)] show ?thesis by (auto simp: sealed_file_def)
qed

lemma decrypt_stream_sealed:
  assumes "ciphers_lawful P" "hashes_sized P" "header_wf h" "length key = KEY_LEN"
    and "sealed_file P key h ms body tail" "piece_lengths ms"
    and "clean r" "pending r = body @ tail" "willing w"
  shows "\<exists>w'. decrypt_stream P h key (header_aad P h) r w = (Inr (hdr_chunk_count h), w') \<and>
    sunk w' = sunk w @ concat ms"
proof -
  have args: "chunk_args key (hdr_nonce h) (header_aad P h)"
    using assms(2-4) by (simp add: chunk_args_def header_wf_def header_aad_def hashes_sized_def)
  note sealed = assms(5) [unfolded sealed_file_def]
  obtain r2 w2 where w2: "decrypt_chunks P r w key (hdr_nonce h) (hdr_algo h)
        (header_aad P h) (hdr_chunk_count h) = (Inr (hdr_chunk_count h), r2, w2)"
      "willing w2" "sunk w2 = sunk w @ concat ms"
    using decrypt_loop_sealed [OF assms(1) args assms(6) _ assms(7,8) _ assms(9), of "hdr_algo h" 0]
      sealed
    by (auto simp: decrypt_chunks_def)
  obtain w3 where "flush w2 = (Inr (), w3)" "sunk w3 = sunk w2"
    using flush_willing [OF w2(2)] by blast
  with w2 show ?thesis by (simp add: decrypt_stream_def)
qed

lemma touches_decrypt_to_tmp [frame]:
  "entry tmp \<subseteq> S \<Longrightarrow> touches S w (snd (decrypt_to_tmp P cipher tmp h key aad r w))"
  unfolding decrypt_to_tmp_def Let_def
  by (intro touches_and_then) (auto simp: frame map_err_Inr_iff dest!: file_create_Inr)

lemma decrypt_to_tmp_Inr:
  assumes "decrypt_to_tmp P cipher tmp h key (header_aad P h) r w = (Inr n, w')"
    and "ciphers_tidy P" "clean r"
  shows "\<exists>e ms body tail k. files w' tmp = Some e \<and> contents e = concat ms \<and>
    take k (pending r) = body @ tail \<and> sealed_file P key h ms body tail \<and>
    (tmp \<noteq> cipher \<longrightarrow> k = length (pending r))"
proof -
  obtain s where create: "file_create tmp w = (Inr (), s)"
    and run: "through_writer tmp (decrypt_stream P h key (header_aad P h)
      (rest_of_input s (tmp = cipher) r)) s = (Inr n, w')"
    using assms(1) by (auto simp: decrypt_to_tmp_def Let_def result_iffs)
  from file_create_Inr [OF create] obtain e where "files s tmp = Some e" by blast
  from through_writer_Inr [OF run this] obtain wr wr' where wr: "sunk wr = []"
    "decrypt_stream P h key (header_aad P h) (rest_of_input s (tmp = cipher) r) wr = (Inr n, wr')"
    "files w' tmp = Some (e\<lparr>contents := sunk wr'\<rparr>)" by blast
  from rest_of_input_clean [OF assms(3)] obtain k where k:
    "clean (rest_of_input s (tmp = cipher) r)"
    "pending (rest_of_input s (tmp = cipher) r) = take k (pending r)"
    "tmp \<noteq> cipher \<longrightarrow> k = length (pending r)" by blast
  from decrypt_stream_Inr [OF assms(2) k(1) wr(2)] k wr(1,3) show ?thesis by auto
qed

lemma decrypt_to_tmp_breaks:
  assumes "breaks r" and "tmp \<noteq> cipher"
  shows "fst (decrypt_to_tmp P cipher tmp h key aad r w) \<noteq> Inr n"
proof -
  have "fst (decrypt_stream P h key aad r v) \<noteq> Inr n" for v
    using decrypt_loop_breaks [OF assms(1), of P key "hdr_nonce h" "hdr_algo h" aad 0 v "hdr_chunk_count h"]
    by (auto simp: decrypt_stream_def decrypt_chunks_def and_then_def split: prod.splits sum.splits)
  then show ?thesis
    using assms(2) by (auto simp: decrypt_to_tmp_def Let_def rest_of_input_def through_writer_def
        and_then_def split_beta split: sum.splits prod.splits)
qed

text \<open>
  What a successful decryption has written: the plaintext of an image that is the input file,
  or a prefix of it when the temporary file was the input.
\<close>

definition recovered ::
  "crypto \<Rightarrow> bytes \<Rightarrow> bytes \<Rightarrow> bool \<Rightarrow> bytes \<Rightarrow> bool" where
  "recovered P pass input emptied bs \<longleftrightarrow>
     (\<exists>ms k. encrypted_image P pass ms (take k input) \<and> (\<not> emptied \<longrightarrow> k = length input) \<and>
        bs = concat ms)"

lemma salt_of_image:
  "header_wf h \<Longrightarrow> take SALT_LEN (drop SALT_OFFSET (header_image P key h)) = hdr_salt h"
  by (simp add: header_image_def pre_hmac_bytes_def header_wf_def SALT_OFFSET_def header_consts)

lemma header_read_raw:
  assumes "header_read P key [Data raw] = (Inr h, r')" and "length raw = HEADER_LEN"
  shows "header_wf h \<and> raw = header_image P key h"
proof -
  have "raw \<noteq> []" using assms(2) by (auto simp: header_consts)
  then have "clean [Data raw]" by simp
  then obtain r2 where "header_read P key [Data raw] = (header_parse P key (pending [Data raw]), r2)"
    using header_read_parse [of "[Data raw]" P key] by blast
  with assms(1) have "header_parse P key raw = Inr h" by simp
  from header_parse_Inr [OF this] assms(2) show ?thesis by simp
qed

lemma touches_decrypt_with_key [frame]:
  "touches (insert (plain_tmp p) (entry p)) w (snd (decrypt_with_key P p c key raw r w))"
  unfolding decrypt_with_key_def Let_def split_beta
  by (intro touches_and_then touches_trans [OF touches_decrypt_to_tmp touches_finish_output])
    (auto simp: entry_subset)

lemma decrypt_file_touches:
  "touches (insert (plain_tmp p) (entry p)) w (snd (decrypt_file P p c pass force w))"
  unfolding decrypt_file_def Let_def split_beta
  by (intro touches_and_then) (simp_all add: frame)

lemma decrypt_with_key_outcome:
  assumes "ciphers_tidy P" "clean r" "length raw = HEADER_LEN"
    and "derive_key P pass (take SALT_LEN (drop SALT_OFFSET raw)) = Inr key"
  shows "outcome (recovered P pass (raw @ pending r) (plain_tmp p = c)) p w
    (decrypt_with_key P p c key raw r w)"
  unfolding decrypt_with_key_def Let_def split_beta
proof (intro outcome_and_then outcome_finish)
  fix h s
  assume "(fst (header_read P key [Data raw]), w) = (Inr h, s)"
  then have hdr: "header_wf h" "raw = header_image P key h"
    using header_read_raw [of P key raw h] assms(3) by (metis fst_conv prod.collapse)+
  let ?m = "decrypt_to_tmp P c (plain_tmp p) h key (header_aad P h) r s"
  show "touches (entry (plain_tmp p)) s (snd ?m)" by (simp add: touches_decrypt_to_tmp)
  show "\<exists>e. files (snd ?m) (plain_tmp p) = Some e \<and>
      recovered P pass (raw @ pending r) (plain_tmp p = c) (contents e)" if "fst ?m = Inr x" for x
  proof -
    from that obtain s' where run: "?m = (Inr x, s')" by (metis prod.collapse)
    from decrypt_to_tmp_Inr [OF this assms(1,2)] obtain e ms body tail k where *:
      "files s' (plain_tmp p) = Some e" "contents e = concat ms"
      "take k (pending r) = body @ tail" "sealed_file P key h ms body tail"
      "plain_tmp p \<noteq> c \<longrightarrow> k = length (pending r)" by blast
    have "encrypted_image P pass ms (raw @ take k (pending r))"
      unfolding encrypted_image_def using hdr * assms(4) salt_of_image by metis
    then have "recovered P pass (raw @ pending r) (plain_tmp p = c) (contents e)"
      unfolding recovered_def using *(2,5)
      by (intro exI [of _ ms] exI [of _ "length raw + k"]) auto
    with * run show ?thesis by auto
  qed
qed (simp_all add: frame)

definition decrypt_good :: "crypto \<Rightarrow> string \<Rightarrow> bytes \<Rightarrow> string \<Rightarrow> world \<Rightarrow> bytes \<Rightarrow> bool" where
  "decrypt_good P c pass p w bs \<longleftrightarrow> (ciphers_tidy P \<longrightarrow> truthful w \<longrightarrow> plain_tmp p \<noteq> c \<longrightarrow>
     (\<exists>ce. files w c = Some ce \<and> recovered P pass (contents ce) (plain_tmp p = c) bs))"

lemma outcome_mono:
  "outcome good dest w m \<Longrightarrow> (\<And>bs. good bs \<Longrightarrow> good' bs) \<Longrightarrow> outcome good' dest w m"
  unfolding outcome_def by blast

lemma file_open_Inr:
  assumes "file_open p w = (Inr bs, w')"
  shows "\<exists>e. files w p = Some e \<and> contents e = bs"
proof -
  obtain u s e where "syscall w = (Inr u, s)" "files s p = Some e" "contents e = bs"
    using assms by (auto simp: file_open_def lookup_file_def and_then_Inr_iff split: option.splits)
  moreover from this have "files s = files w" using touches_none [OF touches_syscall [of "{}" w]] by simp
  ultimately show ?thesis by metis
qed

lemma touches_result: "m = (r, w2) \<Longrightarrow> touches S w1 (snd m) \<Longrightarrow> touches S w1 w2"
  by simp

lemma decrypt_to_tmp_some:
  assumes "fst (decrypt_to_tmp P c tmp h key aad r w) = Inr n"
  shows "\<exists>e. files (snd (decrypt_to_tmp P c tmp h key aad r w)) tmp = Some e"
proof -
  obtain w' where "decrypt_to_tmp P c tmp h key aad r w = (Inr n, w')"
    using assms by (metis prod.collapse)
  moreover from this have "\<exists>e. files w' tmp = Some e"
    by (auto simp: decrypt_to_tmp_def Let_def result_iffs dest!: file_create_Inr through_writer_Inr)
  ultimately show ?thesis by simp
qed

lemma decrypt_with_key_breaks:
  assumes "breaks r" and "plain_tmp p \<noteq> c"
  shows "outcome good p w (decrypt_with_key P p c key raw r w)"
  unfolding decrypt_with_key_def Let_def split_beta
  by (intro outcome_and_then outcome_finish) (auto simp: frame decrypt_to_tmp_breaks [OF assms])

lemma decrypt_file_outcome:
  "outcome (decrypt_good P c pass p w) p w (decrypt_file P p c pass force w)"
  unfolding decrypt_file_def Let_def split_beta
proof (intro outcome_and_then)
  fix u w1 cipher w2 v w3 raw w4 key w5
  assume w1: "ensure_writable p force w = (Inr u, w1)"
    and w2: "map_err Io (file_open c w1) = (Inr cipher, w2)"
    and w3: "map_err Io (syscall w2) = (Inr v, w3)"
    and w4: "(fst (map_err (\<lambda>_. InvalidFormat ''File too short to contain a valid header'')
        (read_exact HEADER_LEN (deliver w3 cipher))), w3) = (Inr raw, w4)"
    and w5: "(derive_key P pass (take SALT_LEN (drop SALT_OFFSET raw)), w4) = (Inr key, w5)"
  let ?r = "snd (map_err (\<lambda>_. InvalidFormat ''File too short to contain a valid header'')
      (read_exact HEADER_LEN (deliver w3 cipher)))"
  have t1: "touches {} w w1" by (rule touches_result [OF w1 touches_ensure_writable])
  have t2: "touches {} w1 w2" by (rule touches_result [OF w2]) (simp add: frame)
  have "touches {} w2 w3" by (rule touches_result [OF w3]) (simp add: frame)
  with t1 t2 have t: "touches {} w w1" "touches {} w w3" by (blast intro: touches_trans)+
  show "outcome (decrypt_good P c pass p w) p w5 (decrypt_with_key P p c key raw ?r w5)"
  proof (cases "ciphers_tidy P \<and> truthful w \<and> plain_tmp p \<noteq> c")
    case False
    then have "outcome (\<lambda>_. True) p w5 (decrypt_with_key P p c key raw ?r w5) \<Longrightarrow> ?thesis"
      by (rule_tac outcome_mono) (auto simp: decrypt_good_def)
    moreover have "outcome (\<lambda>_. True) p w5 (decrypt_with_key P p c key raw ?r w5)"
      unfolding decrypt_with_key_def Let_def split_beta
      by (intro outcome_and_then outcome_finish) (auto simp: frame dest: decrypt_to_tmp_some)
    ultimately show ?thesis by blast
  next
    case True
    with truthful_touches [OF t(2)] consider "breaks (deliver w3 cipher)"
      | "clean (deliver w3 cipher)" "pending (deliver w3 cipher) = cipher" by (auto simp: truthful_def)
    then show ?thesis
    proof cases
      case 1
      obtain r' where "read_exact HEADER_LEN (deliver w3 cipher) = (Inr raw, r')"
        using w4 by (cases "read_exact HEADER_LEN (deliver w3 cipher)")
          (auto simp: map_err_def split: sum.splits)
      with read_exact_breaks [OF 1 this] True decrypt_with_key_breaks show ?thesis by simp
    next
    case d: 2
    obtain r' where rd: "read_exact HEADER_LEN (deliver w3 cipher) = (Inr raw, r')"
      using w4 by (cases "read_exact HEADER_LEN (deliver w3 cipher)")
        (auto simp: map_err_def split: sum.splits)
    from rx.rx_Inr [OF d(1) rd] d(2) have r': "length raw = HEADER_LEN" "clean r'"
      "cipher = raw @ pending r'" by auto
    obtain ce where ce: "files w c = Some ce" "contents ce = cipher"
      using file_open_Inr [of c w1 cipher w2] w2 touches_none [OF t(1)]
      by (auto simp: map_err_Inr_iff)
    have "derive_key P pass (take SALT_LEN (drop SALT_OFFSET raw)) = Inr key" using w5 by simp
    from decrypt_with_key_outcome [OF conjunct1 [OF True] r'(2,1) this]
    have "outcome (recovered P pass cipher (plain_tmp p = c)) p w5
        (decrypt_with_key P p c key raw ?r w5)"
      using rd r'(3) by simp
    then show ?thesis
      by (rule outcome_mono) (use ce in \<open>auto simp: decrypt_good_def\<close>)
    qed
  qed
qed (simp_all add: frame)

subsection \<open>Both are atomic outputs\<close>

lemma encrypt_file_guard:
  "fst (path_exists c w) \<Longrightarrow>
     encrypt_file P plain c pass algo False w = (Inl (FileExists c), snd (path_exists c w))"
  by (simp add: encrypt_file_def guard_refuses)

lemma decrypt_file_guard:
  "fst (path_exists p w) \<Longrightarrow>
     decrypt_file P p c pass False w = (Inl (FileExists p), snd (path_exists p w))"
  by (simp add: decrypt_file_def guard_refuses)

interpretation enc: atomic_output
  "\<lambda>(P, plain, pass, algo) dest force w. encrypt_file P plain dest pass algo force w" cry_tmp
  "\<lambda>(P, plain, pass, algo) dest w bs. \<exists>ms. encrypted_image P pass ms bs"
  by unfold_locales (auto simp: encrypt_file_touches encrypt_file_outcome encrypt_file_guard)

interpretation dec: atomic_output
  "\<lambda>(P, cipher, pass) dest force w. decrypt_file P dest cipher pass force w" plain_tmp
  "\<lambda>(P, cipher, pass) dest w bs. decrypt_good P cipher pass dest w bs"
  by unfold_locales (auto simp: decrypt_file_touches decrypt_file_outcome decrypt_file_guard)

section \<open>Runs in a calm world\<close>

lemma calm_lookups [simp]:
  assumes "calm w" and "files w p = Some e"
  shows "metadata_len p w = (Inr (word_of_nat (length (contents e))), w)"
    and "file_open p w = (Inr (contents e), w)"
  using assms by (simp_all add: metadata_len_def file_open_def)

lemma calm_ensure_writable [simp]:
  "calm w \<Longrightarrow> ensure_writable p force w =
     (if files w p \<noteq> None \<and> \<not> force then (Inl (FileExists p), w) else (Inr (), w))"
  by (simp add: ensure_writable_def)

lemma calm_finish_output [simp]:
  "calm w \<Longrightarrow> file_name dest = Some n \<Longrightarrow> files w tmp = Some e \<Longrightarrow>
     finish_output tmp dest (Inr x) w = (Inr (), set_file dest e (clear_file tmp w))"
  "calm w \<Longrightarrow> file_name tmp = Some m \<Longrightarrow> files w tmp = Some e \<Longrightarrow>
     finish_output tmp dest (Inl err) w = (Inl err, clear_file tmp w)"
  by (simp_all add: finish_output_def)

text \<open>The documented behaviour of the primitives that a successful run relies on.\<close>

definition primitives_work :: "crypto \<Rightarrow> bool" where
  "primitives_work P \<longleftrightarrow> ciphers_lawful P \<and> hashes_sized P \<and> argon2_works P"

lemma demo_primitives_work: "primitives_work demo_crypto"
  by (simp add: primitives_work_def demo_laws demo_argon2_works)

text \<open>A world in which nothing fails and files are read as they are.\<close>

definition serene :: "world \<Rightarrow> bool" where
  "serene w \<longleftrightarrow> calm w \<and> faithful w"

lemma serene_updates [simp]:
  "serene (set_file p e w) = serene w" "serene (clear_file p w) = serene w"
  "serene (save_file p bs w) = serene w" "serene (snd (fill_bytes n w)) = serene w"
  by (simp_all add: serene_def faithful_def calm_def set_file_def clear_file_def save_file_def
      fill_bytes_def split: option.splits)

lemma cry_tmp_name [simp]: "file_name c = Some n \<Longrightarrow> \<exists>m. file_name (cry_tmp c) = Some m"
  using file_name_with_extension [of c n "''cry.tmp''"] by simp

lemma plain_tmp_name [simp]: "file_name c = Some n \<Longrightarrow> \<exists>m. file_name (plain_tmp c) = Some m"
  using file_name_with_extension [of c n "''plain.tmp''"] by simp

lemma tmp_neq [simp]:
  "file_name c = Some n \<Longrightarrow> cry_tmp c \<noteq> c" "file_name c = Some n \<Longrightarrow> plain_tmp c \<noteq> c"
  by (simp_all add: with_extension_neq)

lemma encrypt_with_key_serene:
  assumes "primitives_work P" "serene w" "header_wf h" "length key = KEY_LEN"
    and "files w plain = Some pe" "plain \<noteq> cry_tmp c" "file_name c = Some n"
    and "hdr_chunk_count h = word_of_nat (length (pieces (contents pe)))"
  shows "\<exists>w' e body. encrypt_with_key P plain c key h w = (Inr (), w') \<and> serene w' \<and>
    files w' = (files w)(cry_tmp c := None, c := Some e) \<and>
    contents e = header_image P key h @ body \<and>
    sealed_file P key h (pieces (contents pe)) body []"
proof -
  obtain m where m: "file_name (cry_tmp c) = Some m" using cry_tmp_name [OF assms(7)] by blast
  define w1 where "w1 = set_file (cry_tmp c) \<lparr>contents = [], mode = (case files w (cry_tmp c) of
      None \<Rightarrow> create_mode w | Some e \<Rightarrow> mode e)\<rparr> w"
  have calm: "calm w" "calm w1" "serene w1" "faithful w1"
    using assms(2) by (simp_all add: w1_def serene_def)
      (simp add: faithful_def set_file_def)+
  let ?r = "deliver w1 (contents pe)"
  have r: "clean ?r" "pending ?r = contents pe" using calm(4) by (simp_all add: faithful_def)
  have "willing \<lparr>sunk = [], wplan = []\<rparr>" by (simp add: willing_def)
  with encrypt_stream_clean [of P h key ?r] assms(1,3,4,8) r obtain wr body where wr:
    "encrypt_stream P h key (header_aad P h) ?r \<lparr>sunk = [], wplan = []\<rparr> = (Inr (), wr)"
    "sunk wr = header_image P key h @ body" "sealed_file P key h (pieces (contents pe)) body []"
    by (fastforce simp: primitives_work_def)
  obtain e0 where e0: "files w1 (cry_tmp c) = Some e0" by (simp add: w1_def)
  let ?e = "e0\<lparr>contents := sunk wr\<rparr>"
  have "encrypt_to_tmp P plain (cry_tmp c) h key (header_aad P h) w =
      (Inr (), set_file (cry_tmp c) ?e w1)"
    using assms(5,6) calm m wr(1) e0
    by (simp add: encrypt_to_tmp_def Let_def w1_def [symmetric] calm_save_file)
  then have "encrypt_with_key P plain c key h w =
      (Inr (), set_file c ?e (clear_file (cry_tmp c) (set_file (cry_tmp c) ?e w1)))"
    using calm assms(7) by (simp add: encrypt_with_key_def Let_def)
  then show ?thesis
    using wr(2,3) calm by (intro exI [of _ "set_file c ?e (clear_file (cry_tmp c)
        (set_file (cry_tmp c) ?e w1))"] exI [of _ ?e] exI [of _ body]) (auto simp: w1_def)
qed

lemma encrypt_file_serene:
  assumes P: "primitives_work P" and "serene w" "length pass < 2 ^ 32"
    and "files w plain = Some pe" "length (contents pe) < 2 ^ 64" "plain \<noteq> cry_tmp c"
    and "file_name c = Some n" "files w c = None \<or> force"
  shows "\<exists>w' e h key body. encrypt_file P plain c pass algo force w = (Inr (), w') \<and> serene w' \<and>
    files w' = (files w)(cry_tmp c := None, c := Some e) \<and>
    header_wf h \<and> hdr_algo h = algo \<and> derive_key P pass (hdr_salt h) = Inr key \<and>
    contents e = header_image P key h @ body \<and>
    sealed_file P key h (pieces (contents pe)) body []"
proof -
  define w1 where "w1 = snd (fill_bytes SALT_LEN w)"
  define w2 where "w2 = snd (fill_bytes NONCE_LEN w1)"
  have w2: "serene w2" "files w2 = files w" using assms(2) by (simp_all add: w2_def w1_def)
  let ?salt = "fst (fill_bytes SALT_LEN w)"
  obtain key where key: "derive_key P pass ?salt = Inr key" "length key = KEY_LEN"
    using derive_key_works [of P pass ?salt] P assms(3) by (auto simp: primitives_work_def SALT_LEN_def)
  let ?h = "\<lparr>hdr_algo = algo, hdr_salt = ?salt, hdr_nonce = fst (fill_bytes NONCE_LEN w1),
      hdr_chunk_count = word_of_nat (length (pieces (contents pe)))\<rparr>"
  have wf: "header_wf ?h" by (simp add: header_wf_def)
  have "calm w" using assms(2) by (simp add: serene_def)
  then have run: "encrypt_file P plain c pass algo force w = encrypt_with_key P plain c key ?h w2"
    using assms(4,5,8) key(1)
    by (auto simp: encrypt_file_def Let_def split_beta w1_def w2_def div_ceil_pieces)
  have "files w2 plain = Some pe" "hdr_chunk_count ?h = word_of_nat (length (pieces (contents pe)))"
    using w2(2) assms(4) by simp_all
  from encrypt_with_key_serene [OF P w2(1) wf key(2) this(1) assms(6,7) this(2)] w2(2)
  obtain w' e body where "encrypt_with_key P plain c key ?h w2 = (Inr (), w')" "serene w'"
    "files w' = (files w)(cry_tmp c := None, c := Some e)"
    "contents e = header_image P key ?h @ body"
    "sealed_file P key ?h (pieces (contents pe)) body []" by metis
  with run key(1) wf show ?thesis
    by (intro exI [of _ w'] exI [of _ e] exI [of _ ?h] exI [of _ key] exI [of _ body]) simp
qed

lemma decrypt_with_key_serene:
  assumes P: "primitives_work P" and "serene w" "header_wf h" "length key = KEY_LEN"
    and "sealed_file P key h ms body tail" "piece_lengths ms"
    and "clean r" "pending r = body @ tail" "plain_tmp p \<noteq> c" "file_name p = Some n"
  shows "\<exists>w' e. decrypt_with_key P p c key (header_image P key h) r w = (Inr (), w') \<and> serene w' \<and>
    files w' = (files w)(plain_tmp p := None, p := Some e) \<and> contents e = concat ms"
proof -
  obtain m where m: "file_name (plain_tmp p) = Some m" using plain_tmp_name [OF assms(10)] by blast
  define w1 where "w1 = set_file (plain_tmp p) \<lparr>contents = [], mode = (case files w (plain_tmp p) of
      None \<Rightarrow> create_mode w | Some e \<Rightarrow> mode e)\<rparr> w"
  have calm: "calm w" "calm w1" "serene w1" using assms(2) by (simp_all add: w1_def serene_def)
    (simp add: faithful_def set_file_def)
  have sized: "hashes_sized P" "ciphers_lawful P" using P by (simp_all add: primitives_work_def)
  let ?raw = "header_image P key h"
  have "?raw \<noteq> []" using length_header_image [OF sized(1) assms(3), of key] by (auto simp: header_consts)
  then obtain r' where hdr: "header_read P key [Data ?raw] = (Inr h, r')"
    using header_read_image [of "[Data ?raw]" h P key "[]"] assms(3) sized by auto
  have "willing \<lparr>sunk = [], wplan = []\<rparr>" by (simp add: willing_def)
  with decrypt_stream_sealed [OF sized(2,1) assms(3-8)] obtain wr where wr:
    "decrypt_stream P h key (header_aad P h) r \<lparr>sunk = [], wplan = []\<rparr> = (Inr (hdr_chunk_count h), wr)"
    "sunk wr = concat ms" by fastforce
  obtain e0 where e0: "files w1 (plain_tmp p) = Some e0" by (simp add: w1_def)
  let ?e = "e0\<lparr>contents := sunk wr\<rparr>"
  have "decrypt_to_tmp P c (plain_tmp p) h key (header_aad P h) r w =
      (Inr (hdr_chunk_count h), set_file (plain_tmp p) ?e w1)"
    using assms(9) calm m wr(1) e0
    by (simp add: decrypt_to_tmp_def Let_def w1_def [symmetric] calm_save_file rest_of_input_def)
  then have "decrypt_with_key P p c key ?raw r w =
      (Inr (), set_file p ?e (clear_file (plain_tmp p) (set_file (plain_tmp p) ?e w1)))"
    using calm assms(10) hdr by (simp add: decrypt_with_key_def Let_def)
  then show ?thesis
    using wr(2) calm by (intro exI [of _ "set_file p ?e (clear_file (plain_tmp p)
        (set_file (plain_tmp p) ?e w1))"] exI [of _ ?e]) (auto simp: w1_def)
qed

lemma decrypt_file_serene:
  assumes P: "primitives_work P" and "serene w" "header_wf h"
    and "derive_key P pass (hdr_salt h) = Inr key"
    and "files w c = Some ce" "contents ce = header_image P key h @ body @ tail"
    and "sealed_file P key h ms body tail" "piece_lengths ms"
    and "plain_tmp p \<noteq> c" "file_name p = Some n" "files w p = None \<or> force"
  shows "\<exists>w' e. decrypt_file P p c pass force w = (Inr (), w') \<and> serene w' \<and>
    files w' = (files w)(plain_tmp p := None, p := Some e) \<and> contents e = concat ms"
proof -
  have "calm w" "faithful w" using assms(2) by (simp_all add: serene_def)
  have sized: "hashes_sized P" using P by (simp add: primitives_work_def)
  let ?raw = "header_image P key h" and ?r = "deliver w (contents ce)"
  have len: "length ?raw = HEADER_LEN" by (rule length_header_image [OF sized assms(3)])
  have key: "length key = KEY_LEN"
    using derive_key_length assms(4) P by (auto simp: primitives_work_def argon2_works_def)
  have "clean ?r" "pending ?r = ?raw @ body @ tail"
    using \<open>faithful w\<close> assms(6) by (simp_all add: faithful_def)
  from rx.rx_prefix [OF this len] obtain r' where r': "read_exact HEADER_LEN ?r = (Inr ?raw, r')"
    "clean r'" "pending r' = body @ tail" by blast
  have "decrypt_file P p c pass force w = decrypt_with_key P p c key ?raw r' w"
    using \<open>calm w\<close> assms(4,5,11) r'(1) salt_of_image [OF assms(3)]
    by (auto simp: decrypt_file_def Let_def)
  with decrypt_with_key_serene [OF P assms(2,3) key assms(7,8) r'(2,3) assms(9,10)]
  show ?thesis by simp
qed

subsection \<open>Failures in a calm world\<close>

text \<open>How the closures leave a calm world: nothing happened, or the temporary file is there.\<close>

definition tmp_state :: "string \<Rightarrow> world \<Rightarrow> (cry_error + 'a) \<times> world \<Rightarrow> bool" where
  "tmp_state tmp w m \<longleftrightarrow> calm (snd m) \<and>
     ((files (snd m) = files w \<and> (\<exists>e. fst m = Inl e)) \<or>
      (file_name tmp \<noteq> None \<and> (\<exists>e. files (snd m) = (files w)(tmp := Some e))))"

lemma tmp_state_create:
  assumes "calm w"
  shows "tmp_state tmp w (and_then (map_err Io (file_create tmp w)) (\<lambda>_ s. through_writer tmp (f s) s))"
proof (cases "file_name tmp")
  case None
  with assms show ?thesis by (simp add: tmp_state_def file_create_def)
next
  case (Some n)
  let ?w = "set_file tmp \<lparr>contents = [], mode = (case files w tmp of None \<Rightarrow> create_mode w
      | Some e \<Rightarrow> mode e)\<rparr> w"
  obtain r wr where "f ?w \<lparr>sunk = [], wplan = []\<rparr> = (r, wr)" by fastforce
  with Some assms show ?thesis by (simp add: tmp_state_def calm_save_file) blast
qed

lemma tmp_state_finish:
  assumes "tmp_state (with_extension dest ext) w m"
    and "finish_output (with_extension dest ext) dest (fst m) (snd m) = (Inl e, w')"
  shows "files w' = files w \<or> files w' = (files w)(with_extension dest ext := None)"
proof -
  let ?tmp = "with_extension dest ext"
  obtain r s where m: "m = (r, s)" by fastforce
  show ?thesis
  proof (cases "file_name ?tmp")
    case None
    then obtain x where "r = Inl x" "files s = files w" using assms(1) m by (auto simp: tmp_state_def)
    with None assms m show ?thesis by (auto simp: finish_output_def remove_file_def tmp_state_def)
  next
    case (Some n)
    then obtain k where dest: "file_name dest = Some k"
      by (cases "file_name dest") (auto simp: with_extension_def)
    consider (same) x where "files s = files w" "r = Inl x" | (made) t where "files s = (files w)(?tmp := Some t)"
      using assms(1) m by (auto simp: tmp_state_def)
    then show ?thesis
    proof cases
      case same
      with assms m Some show ?thesis
        by (auto simp: finish_output_def remove_file_def tmp_state_def split: option.splits)
    next
      case made
      have "calm s" using assms(1) m by (simp add: tmp_state_def)
      then show ?thesis
        using made dest Some assms(2) m by (cases r) (auto simp: fun_upd_idem_iff)
    qed
  qed
qed

lemma encrypt_failure_calm:
  assumes "calm w" and "encrypt_file P plain c pass algo force w = (Inl e, w')"
  shows "files w' = files w \<or> files w' = (files w)(cry_tmp c := None)"
proof -
  have step: "files w' = files w \<or> files w' = (files w)(cry_tmp c := None)"
    if "calm s" "files s = files w" "encrypt_with_key P plain c key h s = (Inl e, w')" for key h s
  proof -
    let ?m = "encrypt_to_tmp P plain (cry_tmp c) h key (header_aad P h) s"
    have "tmp_state (cry_tmp c) s ?m"
    proof (cases "files s plain")
      case None
      then show ?thesis using that(1) by (simp add: encrypt_to_tmp_def file_open_def tmp_state_def)
    next
      case (Some pe)
      then show ?thesis
        using tmp_state_create [OF that(1), of "cry_tmp c" "\<lambda>s. encrypt_stream P h key (header_aad P h)
            (deliver s (if cry_tmp c = plain then [] else contents pe))"] that(1)
        by (simp add: encrypt_to_tmp_def Let_def)
    qed
    from tmp_state_finish [OF this, of e w'] that(2,3) show ?thesis
      by (simp add: encrypt_with_key_def Let_def split_beta)
  qed
  then show ?thesis
    using assms by (auto simp: encrypt_file_def Let_def split_beta metadata_len_def result_iffs
        split: if_splits option.splits dest!: step [rotated 2])
qed

lemma decrypt_failure_calm:
  assumes "calm w" and "decrypt_file P p c pass force w = (Inl e, w')"
  shows "files w' = files w \<or> files w' = (files w)(plain_tmp p := None)"
proof -
  have "files w' = files w \<or> files w' = (files w)(plain_tmp p := None)"
    if "decrypt_with_key P p c key raw r w = (Inl e, w')" for key raw r
  proof (cases "fst (header_read P key [Data raw])")
    case (Inl x)
    with that show ?thesis by (simp add: decrypt_with_key_def)
  next
    case (Inr h)
    have "tmp_state (plain_tmp p) w (decrypt_to_tmp P c (plain_tmp p) h key (header_aad P h) r w)"
      using tmp_state_create [OF assms(1)] by (simp add: decrypt_to_tmp_def Let_def)
    from tmp_state_finish [OF this, of e w'] that Inr show ?thesis
      by (simp add: decrypt_with_key_def Let_def split_beta)
  qed
  then show ?thesis
    using assms by (auto simp: decrypt_file_def Let_def split_beta file_open_def result_iffs
        split: if_splits option.splits)
qed

section \<open>Properties\<close>

definition sample_world :: "(string \<times> bytes) list \<Rightarrow> world" where
  "sample_world fs =
    \<lparr>files = map_of (map (\<lambda>(p, bs). (p, \<lparr>contents = bs, mode = 420\<rparr>)) fs),
     create_mode = 420, faults = [], deliver = (\<lambda>bs. if bs = [] then [] else [Data bs]),
     wplans = [], buffered = 0, entropy = (\<lambda>n. 7), drawn = 0, thread_entropy = (\<lambda>n. 8), answers = []\<rparr>"

lemma sample_serene [simp]: "serene (sample_world fs)" "calm (sample_world fs)"
  by (simp_all add: serene_def calm_def faithful_def sample_world_def)

lemma sample_files: "files (sample_world fs) = map_of (map (\<lambda>(p, bs). (p, \<lparr>contents = bs, mode = 420\<rparr>)) fs)"
  by (simp add: sample_world_def)

lemma sample_paths:
  "file_name ''o.cry'' = Some ''o.cry''" "file_name ''b'' = Some ''b''"
  "cry_tmp ''o.cry'' = ''o.cry.tmp''" "plain_tmp ''b'' = ''b.plain.tmp''"
  by code_simp+

text \<open>C1. Round trip of files: in a world without failures, encrypting a file to a path and
  decrypting that path to a third one succeeds and recovers the plaintext byte for byte, for both
  algorithms, every size below 2^64 and every fragmentation of the reads, as long as neither
  temporary name collides with an input.\<close>

theorem file_roundtrip:
  assumes "primitives_work P" "serene w" "length pass < 2 ^ 32"
    and "files w plain = Some pe" "length (contents pe) < 2 ^ 64" "plain \<noteq> cry_tmp c"
    and "file_name c = Some n" "files w c = None \<or> f1"
    and "encrypt_file P plain c pass algo f1 w = (res1, w1)"
    and "plain_tmp out \<noteq> c" "file_name out = Some m" "files w1 out = None \<or> f2"
    and "decrypt_file P out c pass f2 w1 = (res2, w2)"
  shows "res1 = Inr () \<and> res2 = Inr () \<and>
    (\<exists>e. files w2 out = Some e \<and> contents e = contents pe)"
proof -
  from encrypt_file_serene [OF assms(1-8), of algo] assms(9) obtain e h key body where
    enc: "res1 = Inr ()" "serene w1" "files w1 = (files w)(cry_tmp c := None, c := Some e)"
      "header_wf h" "derive_key P pass (hdr_salt h) = Inr key"
      "contents e = header_image P key h @ body"
      "sealed_file P key h (pieces (contents pe)) body []" by auto
  from enc(3) have c: "files w1 c = Some e" by simp
  have img: "contents e = header_image P key h @ body @ []" using enc(6) by simp
  from decrypt_file_serene [OF assms(1) enc(2,4,5) c img enc(7) piece_lengths_pieces
      assms(10-12)] assms(13) enc(1)
  show ?thesis by auto
qed

theorem file_roundtrip_witness:
  "\<exists>w1 w2 e.
    encrypt_file demo_crypto ''a'' ''o.cry'' [1, 2] Aes256Gcm False (sample_world [(''a'', [5, 6])])
      = (Inr (), w1) \<and>
    decrypt_file demo_crypto ''b'' ''o.cry'' [1, 2] False w1 = (Inr (), w2) \<and>
    files w2 ''b'' = Some e \<and> contents e = [5, 6]"
proof -
  let ?w = "sample_world [(''a'', [5, 6])]"
  obtain r1 w1 where enc: "encrypt_file demo_crypto ''a'' ''o.cry'' [1, 2] Aes256Gcm False ?w = (r1, w1)"
    by fastforce
  obtain r2 w2 where dec: "decrypt_file demo_crypto ''b'' ''o.cry'' [1, 2] False w1 = (r2, w2)"
    by fastforce
  have "touches {''o.cry.tmp'', ''o.cry''} ?w w1"
    using encrypt_file_touches [of "''o.cry''" ?w demo_crypto "''a''" "[1, 2]" Aes256Gcm False] enc
    by (auto simp: sample_paths entry_def)
  then have "files w1 ''b'' = None \<or> False" using touches_files by (fastforce simp: sample_files)
  from file_roundtrip [OF demo_primitives_work sample_serene(1) _ _ _ _ sample_paths(1) _ enc _
      sample_paths(2) this dec] enc dec
  show ?thesis by (simp add: sample_files sample_paths)
qed

text \<open>C3. Encryption is atomic whatever fails: for every script of failing system calls, reads
  and writes, every file but the output and its temporary sibling is untouched, the output is
  either what it was or a complete image (a header under the passphrase's key and, behind it,
  exactly the sealed frames the header announces), and a reported success means a complete
  image.\<close>

theorem encrypt_output_is_atomic:
  assumes "encrypt_file P plain c pass algo force w = (res, w')"
  shows "(\<forall>q. q \<noteq> c \<longrightarrow> q \<noteq> cry_tmp c \<longrightarrow> files w' q = files w q) \<and>
    (files w' c = files w c \<or>
      (\<exists>e ms. files w' c = Some e \<and> encrypted_image P pass ms (contents e))) \<and>
    (res = Inr () \<longrightarrow> (\<exists>e ms. files w' c = Some e \<and> encrypted_image P pass ms (contents e)))"
  using enc.others_untouched [of _ c "(P, plain, pass, algo)" force w]
    enc.old_or_complete [of "(P, plain, pass, algo)" c force w]
    enc.success_complete [of "(P, plain, pass, algo)" c force w w'] assms by auto

theorem encrypt_output_is_atomic_witness:
  "files (snd (encrypt_file demo_crypto ''a'' ''o.cry'' [1] Aes256Gcm True
      ((sample_world [(''a'', [5]), (''k'', [9])])\<lparr>faults := [None, None, None, Some PermissionDenied]\<rparr>)))
    ''k'' = Some \<lparr>contents = [9], mode = 420\<rparr>"
proof -
  let ?w = "(sample_world [(''a'', [5]), (''k'', [9])])\<lparr>faults := [None, None, None, Some PermissionDenied]\<rparr>"
  obtain r w' where run: "encrypt_file demo_crypto ''a'' ''o.cry'' [1] Aes256Gcm True ?w = (r, w')"
    by fastforce
  from encrypt_output_is_atomic [OF run] run show ?thesis
    by (simp add: sample_paths sample_files)
qed

text \<open>C2. Decryption releases only authenticated plaintext, whatever fails: for every script of
  failing system calls and writes, and reads that deliver a file in any pieces or fail for good
  anywhere, when the input is not the temporary name of the output, the output is either what it
  was or the exact plaintext of an image under the passphrase's key that the input file holds,
  header, chunk count, order and every chunk included; a success means the latter.\<close>

theorem decrypt_releases_only_authentic:
  assumes "ciphers_tidy P" and "truthful w" and "plain_tmp p \<noteq> c"
    and "decrypt_file P p c pass force w = (res, w')"
  shows "(\<forall>q. q \<noteq> p \<longrightarrow> q \<noteq> plain_tmp p \<longrightarrow> files w' q = files w q) \<and>
    (files w' p = files w p \<or>
      (\<exists>e ce ms. files w' p = Some e \<and> files w c = Some ce \<and>
         encrypted_image P pass ms (contents ce) \<and> contents e = concat ms)) \<and>
    (res = Inr () \<longrightarrow> (\<exists>e ce ms. files w' p = Some e \<and> files w c = Some ce \<and>
         encrypted_image P pass ms (contents ce) \<and> contents e = concat ms))"
proof -
  have good: "decrypt_good P c pass p w bs \<Longrightarrow> \<exists>ce ms. files w c = Some ce \<and>
      encrypted_image P pass ms (contents ce) \<and> bs = concat ms" for bs
    using assms(1-3) by (auto simp: decrypt_good_def recovered_def)
  show ?thesis
    using dec.others_untouched [of _ p "(P, c, pass)" force w]
      dec.old_or_complete [of "(P, c, pass)" p force w]
      dec.success_complete [of "(P, c, pass)" p force w w'] assms(4)
    by (auto dest!: good)
qed

theorem decrypt_releases_only_authentic_witness:
  "\<exists>w1 w2 e ce ms.
    encrypt_file demo_crypto ''a'' ''o.cry'' [1] Aes256Gcm False (sample_world [(''a'', [5, 6])]) = (Inr (), w1) \<and>
    decrypt_file demo_crypto ''b'' ''o.cry'' [1] False w1 = (Inr (), w2) \<and>
    files w2 ''b'' = Some e \<and> files w1 ''o.cry'' = Some ce \<and>
    encrypted_image demo_crypto [1] ms (contents ce) \<and> contents e = concat ms \<and> concat ms = [5, 6]"
proof -
  let ?w = "sample_world [(''a'', [5, 6])]"
  have input: "files ?w ''a'' = Some \<lparr>contents = [5, 6], mode = 420\<rparr>" by (simp add: sample_files)
  have free: "files ?w ''o.cry'' = None \<or> False" "''a'' \<noteq> cry_tmp ''o.cry''"
    by (simp_all add: sample_files sample_paths)
  from encrypt_file_serene [OF demo_primitives_work sample_serene(1) _ input _ free(2) sample_paths(1) free(1),
      of "[1]" Aes256Gcm]
  obtain w1 ce h key body where
    enc: "encrypt_file demo_crypto ''a'' ''o.cry'' [1] Aes256Gcm False ?w = (Inr (), w1)" "serene w1"
      "files w1 = (files ?w)(cry_tmp ''o.cry'' := None, ''o.cry'' := Some ce)"
    and img: "header_wf h" "derive_key demo_crypto [1] (hdr_salt h) = Inr key"
      "contents ce = header_image demo_crypto key h @ body"
      "sealed_file demo_crypto key h (pieces [5, 6]) body []" by auto
  have c: "files w1 ''o.cry'' = Some ce" "files w1 ''b'' = None \<or> False"
    using enc(3) by (simp_all add: sample_files sample_paths)
  have tmp: "plain_tmp ''b'' \<noteq> ''o.cry''" by (simp add: sample_paths)
  from decrypt_file_serene [OF demo_primitives_work enc(2) img(1,2) c(1) _ img(4) piece_lengths_pieces tmp
      sample_paths(2) c(2)] img(3)
  obtain w2 e where dec: "decrypt_file demo_crypto ''b'' ''o.cry'' [1] False w1 = (Inr (), w2)"
    "files w2 ''b'' = Some e" "contents e = [5, 6]" by auto
  have "truthful w1" using enc(2) by (simp add: serene_def faithful_truthful)
  from decrypt_releases_only_authentic [OF demo_ciphers_tidy this tmp dec(1)] dec enc(1) c(1)
  show ?thesis by fastforce
qed

text \<open>Without \<open>--force\<close> an existing output, whenever its metadata can be read, is
  refused with \<open>FileExists\<close> by both operations before anything else happens: no file
  changes.\<close>

lemma existing_output_is_refused:
  assumes "fst (path_exists dest w)"
  shows "fst (encrypt_file P src dest pass algo False w) = Inl (FileExists dest) \<and>
    files (snd (encrypt_file P src dest pass algo False w)) = files w \<and>
    fst (decrypt_file P dest src pass False w) = Inl (FileExists dest) \<and>
    files (snd (decrypt_file P dest src pass False w)) = files w"
  using enc.refuses_existing [OF assms, of "(P, src, pass, algo)"]
    dec.refuses_existing [OF assms, of "(P, src, pass)"] by simp

text \<open>C27. Errors of the data leave nothing behind: when all system calls work, a run of either
  operation that fails (wrong passphrase, tampered header or chunk, truncated or overlong input,
  a file that changed while it was read) has at most removed its temporary file.\<close>

theorem failed_runs_leave_no_temporary:
  assumes "calm w"
  shows "(encrypt_file P plain c pass algo force w = (Inl e, w1) \<longrightarrow>
      files w1 = files w \<or> files w1 = (files w)(cry_tmp c := None)) \<and>
    (decrypt_file P plain c pass force w = (Inl e, w2) \<longrightarrow>
      files w2 = files w \<or> files w2 = (files w)(plain_tmp plain := None))"
  using encrypt_failure_calm [OF assms] decrypt_failure_calm [OF assms] by blast

theorem failed_runs_leave_no_temporary_witness:
  "\<exists>e w2. decrypt_file demo_crypto ''b'' ''o.cry'' [1] False (sample_world [(''o.cry'', [9])]) = (Inl e, w2) \<and>
     (files w2 = files (sample_world [(''o.cry'', [9])]) \<or>
      files w2 = (files (sample_world [(''o.cry'', [9])]))(''b.plain.tmp'' := None))"
proof -
  let ?w = "sample_world [(''o.cry'', [9])]"
  have w: "calm ?w" "deliver ?w [9] = [Data [9]]" by (simp, simp add: sample_world_def)
  have "clean [Data [9]]" "length (pending [Data [9]]) < HEADER_LEN" by (simp_all add: header_consts)
  from rx.rx_short [OF this] obtain r where "read_exact HEADER_LEN [Data [9]] = (Inl UnexpectedEof, r)"
    by blast
  then obtain e where "decrypt_file demo_crypto ''b'' ''o.cry'' [1] False ?w = (Inl e, ?w)"
    using w by (simp add: decrypt_file_def sample_files)
  with failed_runs_leave_no_temporary [OF w(1), of demo_crypto "''b''" "''o.cry''" "[1]" _ False e _ ?w]
  show ?thesis by (auto simp: sample_paths)
qed

text \<open>C39. The temporary name is not guarded: a non-empty plaintext whose name is the temporary
  name of the output (\<open>o.cry.tmp\<close> for the output \<open>o.cry\<close>) is emptied by the
  creation of the temporary file; the run then reports a truncated input and deletes it, with or
  without \<open>--force\<close>.\<close>

theorem input_named_like_temporary_is_destroyed:
  assumes "primitives_work P" "serene w" "length pass < 2 ^ 32"
    and "files w (cry_tmp c) = Some pe" "contents pe \<noteq> []" "length (contents pe) < 2 ^ 64"
    and "file_name c = Some n" "files w c = None"
  shows "\<exists>k w'. encrypt_file P (cry_tmp c) c pass algo force w = (Inl (Truncated k 0), w') \<and>
    files w' = (files w)(cry_tmp c := None)"
proof -
  let ?tmp = "cry_tmp c" and ?k = "word_of_nat (length (pieces (contents pe))) :: u64"
  obtain m where m: "file_name ?tmp = Some m" using cry_tmp_name [OF assms(7)] by blast
  define w1 where "w1 = snd (fill_bytes NONCE_LEN (snd (fill_bytes SALT_LEN w)))"
  define w2 where "w2 = set_file ?tmp \<lparr>contents = [], mode = mode pe\<rparr> w1"
  have w1: "calm w1" "files w1 = files w" and w2: "calm w2" "faithful w2"
    using assms(2) by (simp_all add: w1_def w2_def serene_def)
      (simp add: faithful_def set_file_def fill_bytes_def)
  let ?salt = "fst (fill_bytes SALT_LEN w)"
  obtain key where key: "derive_key P pass ?salt = Inr key"
    using derive_key_works [of P pass ?salt] assms(1,3) by (auto simp: primitives_work_def SALT_LEN_def)
  define h where "h = \<lparr>hdr_algo = algo, hdr_salt = ?salt,
      hdr_nonce = fst (fill_bytes NONCE_LEN (snd (fill_bytes SALT_LEN w))), hdr_chunk_count = ?k\<rparr>"
  have k: "?k \<noteq> 0"
  proof -
    have "length (pieces (contents pe)) < 2 ^ 64" "length (pieces (contents pe)) \<noteq> 0"
      using assms(5,6) length_pieces_le [of "contents pe"] by (auto simp: pieces_step)
    then show ?thesis using u64_of_nat_inject [of "length (pieces (contents pe))" 0] by simp
  qed
  let ?r = "deliver w2 []"
  have r: "clean ?r" "pending ?r = []" using w2(2) by (simp_all add: faithful_def)
  obtain wr where wr: "header_write P h key \<lparr>sunk = [], wplan = []\<rparr> = (Inr (), wr)" "willing wr"
    using header_write_willing [of "\<lparr>sunk = [], wplan = []\<rparr>" P h key] by (auto simp: willing_def)
  obtain r' where "read_chunk CHUNK_SIZE ?r = (Inr [], r')" using rc.rc_take [OF r(1), of CHUNK_SIZE] r(2) by auto
  then have none: "encrypt_chunks P ?r wr key (hdr_nonce h) algo (header_aad P h) ?k = (Inr 0, r', wr)"
    by (simp add: encrypt_chunks_def encrypt_loop.simps)
  obtain wr' where "flush wr = (Inr (), wr')" using flush_willing [OF wr(2)] by blast
  with wr none k have "encrypt_stream P h key (header_aad P h) ?r \<lparr>sunk = [], wplan = []\<rparr> =
      (Inl (Truncated ?k 0), wr')"
    by (simp add: encrypt_stream_def h_def)
  then have "encrypt_to_tmp P ?tmp ?tmp h key (header_aad P h) w1 =
      (Inl (Truncated ?k 0), save_file ?tmp (sunk wr') w2)"
    using assms(4) w1 w2(1) m by (simp add: encrypt_to_tmp_def Let_def w2_def [symmetric])
  moreover have "save_file ?tmp (sunk wr') w2 = set_file ?tmp \<lparr>contents = sunk wr', mode = mode pe\<rparr> w2"
    by (simp add: calm_save_file w2_def)
  ultimately have "encrypt_with_key P ?tmp c key h w1 = (Inl (Truncated ?k 0),
      clear_file ?tmp (set_file ?tmp \<lparr>contents = sunk wr', mode = mode pe\<rparr> w2))"
    using w2(1) m by (simp add: encrypt_with_key_def Let_def)
  moreover have "encrypt_file P ?tmp c pass algo force w = encrypt_with_key P ?tmp c key h w1"
    using assms(2,4,6,8) key
    by (simp add: encrypt_file_def Let_def split_beta serene_def w1_def h_def div_ceil_pieces)
  ultimately show ?thesis using w1(2) by (simp add: w2_def)
qed

theorem input_named_like_temporary_is_destroyed_witness:
  "\<exists>k w'. encrypt_file demo_crypto ''o.cry.tmp'' ''o.cry'' [1] Aes256Gcm False
      (sample_world [(''o.cry.tmp'', [5, 6])]) = (Inl (Truncated k 0), w') \<and> files w' ''o.cry.tmp'' = None"
proof -
  let ?w = "sample_world [(''o.cry.tmp'', [5, 6])]"
  have "files ?w (cry_tmp ''o.cry'') = Some \<lparr>contents = [5, 6], mode = 420\<rparr>" "files ?w ''o.cry'' = None"
    by (simp_all add: sample_paths sample_files)
  from input_named_like_temporary_is_destroyed [OF demo_primitives_work sample_serene(1) _ this(1) _ _
      sample_paths(1) this(2), of "[1]" Aes256Gcm False]
  show ?thesis by (auto simp: sample_paths)
qed

text \<open>When the final rename fails, the temporary file stays: for decryption it holds the
  whole plaintext. Only errors of the closure remove it.\<close>

lemma failed_rename_keeps_temporary:
  assumes "faults w = Some e # f" and "files w tmp = Some t"
  shows "\<exists>w'. finish_output tmp dest (Inr x) w = (Inl (Io e), w') \<and> files w' = files w \<and>
    files w' tmp = Some t"
  using assms by (simp add: finish_output_def rename_def entry_call_def syscall_def)

end
