(* ===== verification/Cry_Identity.thy ===== *)
theory Cry_Identity
  imports Cry_Files
begin

text \<open>
  CryDNA identities, \<open>src/crydna.rs\<close>: derivation of the salt and the Ed25519 seed, the
  views of the public key, hexadecimal coding, signing and verification of content, and the
  private-key file.
\<close>

section \<open>Hexadecimal coding\<close>

definition bytes_to_hex :: "bytes \<Rightarrow> string" where
  "bytes_to_hex bs = concat (map show_hex2 bs)"

definition hex_value :: "char \<Rightarrow> nat option" where
  "hex_value c =
    (let n = of_char c :: nat in
     if 48 \<le> n \<and> n \<le> 57 then Some (n - 48)
     else if 97 \<le> n \<and> n \<le> 102 then Some (n - 87)
     else if 65 \<le> n \<and> n \<le> 70 then Some (n - 55)
     else None)"

text \<open>
  \<open>u8::from_str_radix(_, 16)\<close> on two bytes: two digits, or a plus sign and one digit.
\<close>

definition invalid_digit :: string where
  "invalid_digit = ''invalid digit found in string''"

definition from_str_radix_16 :: "char \<Rightarrow> char \<Rightarrow> string + byte" where
  "from_str_radix_16 c d =
    (case (hex_value c, hex_value d) of
       (Some a, Some b) \<Rightarrow> Inr (word_of_nat (16 * a + b))
     | (None, Some b) \<Rightarrow> if c = CHR ''+'' then Inr (word_of_nat b) else Inl invalid_digit
     | _ \<Rightarrow> Inl invalid_digit)"

text \<open>
  A string index is a character boundary when no UTF-8 continuation byte starts there; slicing
  anywhere else panics. The pairs are taken in order and the first error ends the loop.
\<close>

definition char_boundary :: "string \<Rightarrow> bool" where
  "char_boundary rest =
    (case rest of [] \<Rightarrow> True | c # _ \<Rightarrow> \<not> (128 \<le> (of_char c :: nat) \<and> (of_char c :: nat) < 192))"

fun hex_pairs :: "string \<Rightarrow> (string + bytes) outcome" where
  "hex_pairs (c # d # rest) =
    (if \<not> char_boundary rest then Panicked
     else (case from_str_radix_16 c d of
             Inl e \<Rightarrow> Returned (Inl e)
           | Inr b \<Rightarrow>
               (case hex_pairs rest of
                  Panicked \<Rightarrow> Panicked
                | Returned (Inl e) \<Rightarrow> Returned (Inl e)
                | Returned (Inr bs) \<Rightarrow> Returned (Inr (b # bs)))))"
| "hex_pairs rest = Returned (Inr [])"

definition hex_to_bytes :: "string \<Rightarrow> (string + bytes) outcome" where
  "hex_to_bytes s =
    (if length s mod 2 \<noteq> 0 then Returned (Inl (''odd hex length ('' @ show_nat (length s) @ '')''))
     else hex_pairs s)"

lemma of_char_digit:
  fixes n :: nat
  shows "n < 10 \<Longrightarrow> of_char (char_of (48 + n) :: char) = 48 + n"
    and "n < 16 \<Longrightarrow> of_char (char_of (87 + n) :: char) = 87 + n"
  by simp_all

lemma hex_value_digit: "n < 16 \<Longrightarrow> hex_value (hex_digit n) = Some n"
  by (auto simp: hex_value_def hex_digit_def of_char_digit Let_def)

lemma hex_digit_ascii: "n < 16 \<Longrightarrow> char_boundary (hex_digit n # r)"
  by (auto simp: char_boundary_def hex_digit_def of_char_digit)

lemma byte_nibbles: "word_of_nat (16 * (unat b div 16) + unat b mod 16) = (b :: byte)"
  by simp

lemma from_str_radix_show:
  "from_str_radix_16 (hex_digit (unat b div 16)) (hex_digit (unat b mod 16)) = Inr b"
proof -
  have "unat b div 16 < 16" using unat_byte_less [of b] by simp
  then show ?thesis by (simp add: from_str_radix_16_def hex_value_digit byte_nibbles)
qed

lemma length_bytes_to_hex [simp]: "length (bytes_to_hex bs) = 2 * length bs"
  by (induction bs) (simp_all add: bytes_to_hex_def show_hex2_def)

lemma bytes_to_hex_boundary: "char_boundary (bytes_to_hex bs)"
proof (cases bs)
  case Nil
  then show ?thesis by (simp add: bytes_to_hex_def char_boundary_def)
next
  case (Cons b bs')
  have "unat b div 16 < 16" using unat_byte_less [of b] by simp
  with Cons show ?thesis by (simp add: bytes_to_hex_def show_hex2_def hex_digit_ascii)
qed

lemma hex_pairs_bytes_to_hex: "hex_pairs (bytes_to_hex bs) = Returned (Inr bs)"
proof (induction bs)
  case Nil
  then show ?case by (simp add: bytes_to_hex_def)
next
  case (Cons b bs)
  have split: "bytes_to_hex (b # bs) = hex_digit (unat b div 16) # hex_digit (unat b mod 16) # bytes_to_hex bs"
    by (simp add: bytes_to_hex_def show_hex2_def)
  show ?case unfolding split using Cons.IH by (simp add: from_str_radix_show bytes_to_hex_boundary)
qed

lemma hex_to_bytes_of_hex [simp]: "hex_to_bytes (bytes_to_hex bs) = Returned (Inr bs)"
  by (simp add: hex_to_bytes_def hex_pairs_bytes_to_hex)

interpretation hexc: partial_codec bytes_to_hex
  "\<lambda>s. case hex_to_bytes s of Returned (Inr bs) \<Rightarrow> Some bs | _ \<Rightarrow> None"
  by unfold_locales simp

section \<open>Identities\<close>

definition DOMAIN :: bytes where "DOMAIN = str_bytes ''CryDNA-v1''"
definition SIG_DOMAIN :: bytes where "SIG_DOMAIN = str_bytes ''CryDNA-file-sig-v1:''"
definition SEED_LEN :: nat where "SEED_LEN = 32"

text \<open>The signing key is its 32-byte seed.\<close>

record identity =
  signing_key :: bytes

text \<open>The bytes fed to the hash, in order.\<close>

definition salt_input :: "string \<Rightarrow> u32 \<Rightarrow> string option \<Rightarrow> bytes" where
  "salt_input namespace version sub_id =
     DOMAIN @ str_bytes '':'' @ str_bytes namespace @ str_bytes '':v'' @ u32_to_be_bytes version @
     (case sub_id of None \<Rightarrow> [] | Some sub \<Rightarrow> str_bytes '':sub:'' @ str_bytes sub)"

definition derive_salt :: "crypto \<Rightarrow> string \<Rightarrow> u32 \<Rightarrow> string option \<Rightarrow> bytes" where
  "derive_salt P namespace version sub_id = take 16 (sha256 P (salt_input namespace version sub_id))"

definition identity_derive ::
  "crypto \<Rightarrow> bytes \<Rightarrow> string \<Rightarrow> u32 \<Rightarrow> string option \<Rightarrow> cry_error + identity" where
  "identity_derive P passphrase namespace version sub_id =
    (let salt = derive_salt P namespace version sub_id in
     case params_new P 65536 3 1 (Some SEED_LEN) of
       Inl e \<Rightarrow> Inl (Kdf e)
     | Inr params \<Rightarrow>
         (case hash_password_into P params passphrase salt SEED_LEN of
            Inl e \<Rightarrow> Inl (Kdf e)
          | Inr seed \<Rightarrow> Inr \<lparr>signing_key = seed\<rparr>))"

definition verifying_key :: "crypto \<Rightarrow> identity \<Rightarrow> bytes" where
  "verifying_key P i = ed25519_public P (signing_key i)"

definition public_key_hex :: "crypto \<Rightarrow> identity \<Rightarrow> string" where
  "public_key_hex P i = bytes_to_hex (verifying_key P i)"

definition public_key_base64 :: "crypto \<Rightarrow> identity \<Rightarrow> string" where
  "public_key_base64 P i = base64_encode P (verifying_key P i)"

definition trim_end_matches :: "char \<Rightarrow> string \<Rightarrow> string" where
  "trim_end_matches c s = rev (dropWhile (\<lambda>d. d = c) (rev s))"

definition fingerprint :: "crypto \<Rightarrow> identity \<Rightarrow> string" where
  "fingerprint P i =
    (let hash = sha256 P (verifying_key P i);
         b64 = base64_encode P hash
     in ''SHA256:'' @ trim_end_matches (CHR ''='') b64)"

section \<open>SSH export\<close>

definition KEY_TYPE :: bytes where "KEY_TYPE = str_bytes ''ssh-ed25519''"

definition ssh_wire_public_key :: "bytes \<Rightarrow> bytes" where
  "ssh_wire_public_key pub_bytes =
     u32_to_be_bytes (word_of_nat (length KEY_TYPE)) @ KEY_TYPE @
     u32_to_be_bytes (word_of_nat (length pub_bytes)) @ pub_bytes"

definition ssh_authorized_keys_line :: "crypto \<Rightarrow> identity \<Rightarrow> string \<Rightarrow> string" where
  "ssh_authorized_keys_line P i comment =
     ''ssh-ed25519 '' @ base64_encode P (ssh_wire_public_key (verifying_key P i)) @ '' '' @ comment"

definition to_keypair_bytes :: "crypto \<Rightarrow> identity \<Rightarrow> bytes" where
  "to_keypair_bytes P i = signing_key i @ verifying_key P i"

text \<open>\<open>rng\<close> is the thread's random generator.\<close>

definition openssh_private_key ::
  "crypto \<Rightarrow> (nat \<Rightarrow> byte) \<Rightarrow> identity \<Rightarrow> string \<Rightarrow> string \<Rightarrow> cry_error + string" where
  "openssh_private_key P rng i passphrase comment =
    (case ssh_keypair_from_bytes P (to_keypair_bytes P i) of
       Inl e \<Rightarrow> Inl (InvalidFormat (''OpenSSH key build failed: '' @ e))
     | Inr keypair \<Rightarrow>
         (case ssh_private_key_new P keypair comment of
            Inl e \<Rightarrow> Inl (InvalidFormat (''OpenSSH key build failed: '' @ e))
          | Inr private \<Rightarrow>
              (case ssh_key_encrypt P rng private passphrase of
                 Inl e \<Rightarrow> Inl (InvalidFormat (''OpenSSH key encryption failed: '' @ e))
               | Inr encrypted \<Rightarrow>
                   (case ssh_key_to_openssh P encrypted of
                      Inl e \<Rightarrow> Inl (InvalidFormat (''OpenSSH key encode failed: '' @ e))
                    | Inr pem \<Rightarrow> Inr pem))))"

section \<open>The private key file\<close>

definition private_key_hex :: "identity \<Rightarrow> string" where
  "private_key_hex i = bytes_to_hex (signing_key i)"

text \<open>The Unix variant; mode \<open>0o600\<close> is 384.\<close>

definition write_private_key_hex_file ::
  "identity \<Rightarrow> string \<Rightarrow> bool \<Rightarrow> world \<Rightarrow> (cry_error + unit) \<times> world" where
  "write_private_key_hex_file i path force w =
    (let (present, w) = path_exists path w in
     if present \<and> \<not> force then (Inl (FileExists path), w) else
     and_then (map_err Io (fs_write path (str_bytes (private_key_hex i)) w)) (\<lambda>_ w.
     and_then (map_err Io (set_permissions path 384 w)) (\<lambda>_ w.
     (Inr (), w))))"

section \<open>Signatures\<close>

text \<open>The digest that is signed, computed alike by both sides.\<close>

definition content_digest :: "crypto \<Rightarrow> bytes \<Rightarrow> bytes" where
  "content_digest P content =
    (let content_hash = sha256 P content
     in sha256 P (SIG_DOMAIN @ content_hash))"

definition sign_content :: "crypto \<Rightarrow> identity \<Rightarrow> bytes \<Rightarrow> bytes" where
  "sign_content P i content = ed25519_sign P (signing_key i) (content_digest P content)"

definition signature_hex :: "bytes \<Rightarrow> string" where
  "signature_hex sig = bytes_to_hex sig"

definition bad_signature :: cry_error where
  "bad_signature = VerificationFailed (''Signature is invalid '' @ em_dash @
     '' file may have been tampered with, or the wrong public key was supplied.'')"

text \<open>\<open>hex_to_bytes(_).map_err(_)?\<close>, which may also panic.\<close>

definition parse_hex ::
  "string \<Rightarrow> string \<Rightarrow> (bytes \<Rightarrow> (cry_error + 'a) outcome) \<Rightarrow> (cry_error + 'a) outcome" where
  "parse_hex what s k =
    (case hex_to_bytes s of
       Panicked \<Rightarrow> Panicked
     | Returned (Inl e) \<Rightarrow> Returned (Inl (InvalidFormat (what @ e)))
     | Returned (Inr bs) \<Rightarrow> k bs)"

definition verify_content_signature ::
  "crypto \<Rightarrow> string \<Rightarrow> bytes \<Rightarrow> string \<Rightarrow> (cry_error + unit) outcome" where
  "verify_content_signature P public_hex content sig_hex =
     parse_hex ''Invalid public key hex: '' public_hex (\<lambda>pub_bytes.
     if length pub_bytes \<noteq> 32
     then Returned (Inl (InvalidFormat ''Ed25519 public key must be exactly 32 bytes'')) else
     (case ed25519_point P pub_bytes of
        Inl e \<Rightarrow> Returned (Inl (InvalidFormat (''Invalid Ed25519 public key: '' @ e)))
      | Inr key \<Rightarrow>
          parse_hex ''Invalid signature hex: '' sig_hex (\<lambda>sig_bytes.
          if length sig_bytes \<noteq> 64
          then Returned (Inl (InvalidFormat ''Ed25519 signature must be exactly 64 bytes'')) else
          if ed25519_verify P key (content_digest P content) sig_bytes
          then Returned (Inr ()) else Returned (Inl bad_signature))))"

section \<open>Helper facts\<close>

lemma str_bytes_append [simp]: "str_bytes (a @ b) = str_bytes a @ str_bytes b"
  by (simp add: str_bytes_def)

definition text_of :: "bytes \<Rightarrow> string" where
  "text_of bs = map (\<lambda>b. char_of (unat b)) bs"

lemma str_bytes_text_of [simp]: "str_bytes (text_of bs) = bs"
proof -
  have "(word_of_nat (of_char (char_of (unat b))) :: byte) = b" for b :: byte
    using unat_byte_less [of b] by (simp only: of_char_of) simp
  then show ?thesis by (induction bs) (simp_all add: str_bytes_def text_of_def)
qed

lemma str_bytes_inject [simp]: "str_bytes a = str_bytes b \<longleftrightarrow> a = b"
proof
  assume *: "str_bytes a = str_bytes b"
  have "char_of (unat (word_of_nat (of_char c) :: byte)) = c" for c
    by (simp only: unat_of_nat) simp
  then have "text_of (str_bytes s) = s" for s
    by (induction s) (simp_all add: str_bytes_def text_of_def)
  with * show "a = b" by metis
qed simp

lemma length_str_bytes [simp]: "length (str_bytes s) = length s"
  by (simp add: str_bytes_def)

lemma identity_derive_length:
  "argon2_sized P \<Longrightarrow> identity_derive P pass ns v sub = Inr i \<Longrightarrow> length (signing_key i) = 32"
  by (auto simp: identity_derive_def Let_def argon2_sized_def SEED_LEN_def split: sum.splits)

lemma touches_write_private_key_hex_file [frame]:
  "entry p \<subseteq> S \<Longrightarrow> touches S w (snd (write_private_key_hex_file i p force w))"
proof -
  assume p: "entry p \<subseteq> S"
  obtain b w1 where w1: "path_exists p w = (b, w1)" by fastforce
  have "touches S w1 (snd (and_then (map_err Io (fs_write p (str_bytes (private_key_hex i)) w1)) (\<lambda>_ w.
     and_then (map_err Io (set_permissions p 384 w)) (\<lambda>_ w. (Inr () :: cry_error + unit, w)))))"
    by (intro touches_and_then) (simp_all add: frame p)
  with touches_path_exists [of S w p] w1 show ?thesis
    by (auto simp: write_private_key_hex_file_def intro: touches_trans)
qed

lemma write_private_key_hex_file_Inr:
  assumes "write_private_key_hex_file i path force w = (Inr (), w')"
  shows "\<exists>e. files w' path = Some e \<and> contents e = str_bytes (bytes_to_hex (signing_key i)) \<and> mode e = 384"
  using assms
  by (fastforce simp: write_private_key_hex_file_def result_iffs private_key_hex_def
      split: prod.splits if_splits dest!: fs_write_Inr set_permissions_Inr)

text \<open>An RFC 4253 string: a length and that many bytes.\<close>

definition take_ssh_string :: "bytes \<Rightarrow> (bytes \<times> bytes) option" where
  "take_ssh_string bs =
    (if length bs < 4 then None
     else let n = unat (u32_from_be_bytes (take 4 bs))
          in if length bs < 4 + n then None else Some (take n (drop 4 bs), drop (4 + n) bs))"

lemma take_ssh_string_encoded:
  assumes "length s < 2 ^ 32"
  shows "take_ssh_string (u32_to_be_bytes (word_of_nat (length s)) @ s @ rest) = Some (s, rest)"
proof -
  have "unat (word_of_nat (length s) :: u32) = length s" using assms by (simp only: unat_of_nat) simp
  then show ?thesis by (simp add: take_ssh_string_def be32.dec_enc_id)
qed

definition to_lower :: "char \<Rightarrow> char" where
  "to_lower c = (let n = of_char c :: nat in if 65 \<le> n \<and> n \<le> 90 then char_of (n + 32) else c)"

lemma hex_value_digit_lower:
  assumes "hex_value c = Some n"
  shows "n < 16 \<and> hex_digit n = to_lower c"
  using assms by (auto simp: hex_value_def hex_digit_def to_lower_def Let_def split: if_splits)

lemma hex_pairs_canonical:
  "hex_pairs s = Returned (Inr bs) \<Longrightarrow> CHR ''+'' \<notin> set s \<Longrightarrow> even (length s) \<Longrightarrow>
     bytes_to_hex bs = map to_lower s"
proof (induction s arbitrary: bs rule: hex_pairs.induct)
  case (1 c d rest)
  from "1.prems" obtain b bs' where b: "from_str_radix_16 c d = Inr b" "bs = b # bs'"
    "hex_pairs rest = Returned (Inr bs')" "char_boundary rest"
    by (auto split: if_splits sum.splits outcome.splits)
  with "1.prems" obtain x y where xy: "hex_value c = Some x" "hex_value d = Some y"
    "b = word_of_nat (16 * x + y)"
    by (auto simp: from_str_radix_16_def split: option.splits)
  then have nib: "x < 16" "y < 16" "hex_digit x = to_lower c" "hex_digit y = to_lower d"
    using hex_value_digit_lower by blast+
  then have "unat b = 16 * x + y" using xy(3) by (simp only: unat_of_nat) simp
  then have "show_hex2 b = [to_lower c, to_lower d]" using nib by (simp add: show_hex2_def)
  moreover have "bytes_to_hex bs' = map to_lower rest"
    using "1.IH" [OF _ b(1) b(3)] "1.prems" b(4) by auto
  ultimately show ?case using b(2) by (simp add: bytes_to_hex_def)
qed (auto simp: bytes_to_hex_def)

lemma hex_pairs_ascii:
  "list_all (\<lambda>c. of_char c < (128 :: nat)) s \<Longrightarrow> hex_pairs s \<noteq> Panicked"
proof (induction s rule: hex_pairs.induct)
  case (1 c d rest)
  moreover have "char_boundary rest"
    using "1.prems" by (cases rest) (auto simp: char_boundary_def)
  ultimately show ?case by (auto split: sum.splits outcome.splits)
qed auto

lemma signed_content_verifies:
  assumes "ed25519_lawful P" and "length (signing_key i) = 32"
  shows "verify_content_signature P (public_key_hex P i) content
    (signature_hex (sign_content P i content)) = Returned (Inr ())"
  using assms
  by (simp add: ed25519_lawful_def verify_content_signature_def parse_hex_def public_key_hex_def
      signature_hex_def sign_content_def verifying_key_def)

text \<open>Verification accepts exactly when the key text decodes to 32 bytes that are an Ed25519
  point, the signature text decodes to 64 bytes, and the Ed25519 check passes on the
  domain-separated digest of the content; every other outcome is an error or a panic.\<close>

lemma verify_accepts_iff:
  "verify_content_signature P pub content sig = Returned (Inr ()) \<longleftrightarrow>
     (\<exists>pk key sb. hex_to_bytes pub = Returned (Inr pk) \<and> length pk = 32 \<and>
        ed25519_point P pk = Inr key \<and> hex_to_bytes sig = Returned (Inr sb) \<and> length sb = 64 \<and>
        ed25519_verify P key (sha256 P (SIG_DOMAIN @ sha256 P content)) sb)"
  by (auto simp: verify_content_signature_def parse_hex_def content_digest_def Let_def
      split: outcome.splits sum.splits if_splits)

section \<open>Properties\<close>

text \<open>C31. Hexadecimal round trip: every byte string prints as twice as many lower-case digits and
  parses back to itself, without panicking; and whatever the parser accepts without a plus sign
  is, up to case, the print of what it returns.\<close>

theorem hex_roundtrip:
  "hex_to_bytes (bytes_to_hex bs) = Returned (Inr bs) \<and>
   length (bytes_to_hex bs) = 2 * length bs \<and>
   (hex_to_bytes s = Returned (Inr cs) \<and> CHR ''+'' \<notin> set s \<longrightarrow> map to_lower s = bytes_to_hex cs)"
  using hex_pairs_canonical [of s cs]
  by (auto simp: hex_to_bytes_def hex_pairs_bytes_to_hex split: if_splits)

theorem hex_roundtrip_witness:
  "map to_lower ''aBfF'' = bytes_to_hex [0xAB, 0xFF]"
proof -
  have "hex_to_bytes ''aBfF'' = Returned (Inr [0xAB, 0xFF])" by code_simp
  with hex_roundtrip [of "[]" "''aBfF''" "[0xAB, 0xFF]"] show ?thesis by simp
qed

text \<open>On ASCII arguments the hexadecimal parser never panics; on a text of even length whose
  second pair does not start at a character boundary verification panics instead of returning an
  error.\<close>

lemma hex_parser_panics_only_off_ascii:
  "(list_all (\<lambda>c. of_char c < (128 :: nat)) s \<longrightarrow> hex_to_bytes s \<noteq> Panicked) \<and>
   (odd (length r) \<and> \<not> char_boundary (e # r) \<longrightarrow>
      verify_content_signature P (c # d # e # r) content sig = Panicked)"
  using hex_pairs_ascii [of s]
  by (auto simp: hex_to_bytes_def verify_content_signature_def parse_hex_def odd_iff_mod_2_eq_one
      mod_Suc)

text \<open>A signature made with a derived identity verifies: for every passphrase, namespace,
  version and sub-identity and every content, what \<open>sign\<close> prints is accepted by
  \<open>verify\<close> together with the printed public key.\<close>

lemma sign_verify_roundtrip:
  assumes "ed25519_lawful P" and "argon2_sized P"
    and "identity_derive P pass ns v sub = Inr i"
  shows "verify_content_signature P (public_key_hex P i) content
    (signature_hex (sign_content P i content)) = Returned (Inr ())"
  by (rule signed_content_verifies [OF assms(1) identity_derive_length [OF assms(2,3)]])

lemma salt_input_inject: "salt_input ns v sub = salt_input ns v' sub' \<longleftrightarrow> v = v' \<and> sub = sub'"
  by (auto simp: salt_input_def be32.enc_append_inject split: option.splits)
    (auto simp: str_bytes_def)

text \<open>C38. Inside one namespace the text the salt is the digest of determines the version and the
  sub-identity, so rotating the version or changing the sub-identity changes what is hashed. Across
  namespaces it does not: the separators are not escaped, so that a sub-identity of one namespace
  can be spelled as a namespace of its own; such two parameter triples give the same salt and, from
  one passphrase, the same identity.\<close>

theorem salts_separate_only_inside_a_namespace:
  "(salt_input ns v sub = salt_input ns v' sub' \<longleftrightarrow> v = v' \<and> sub = sub') \<and>
   derive_salt P ns v (Some (b @ '':v'' @ text_of (u32_to_be_bytes v2))) =
   derive_salt P (ns @ '':v'' @ text_of (u32_to_be_bytes v) @ '':sub:'' @ b) v2 None \<and>
   identity_derive P pass ns v (Some (b @ '':v'' @ text_of (u32_to_be_bytes v2))) =
   identity_derive P pass (ns @ '':v'' @ text_of (u32_to_be_bytes v) @ '':sub:'' @ b) v2 None"
proof -
  note salt_input_inject [of ns v sub v' sub']
  moreover have "str_bytes [] = []" by (simp add: str_bytes_def)
  then have "salt_input ns v (Some (b @ '':v'' @ text_of (u32_to_be_bytes v2))) =
      salt_input (ns @ '':v'' @ text_of (u32_to_be_bytes v) @ '':sub:'' @ b) v2 None"
    by (simp only: salt_input_def option.case str_bytes_append str_bytes_text_of append_assoc append_Nil2)
  ultimately show ?thesis by (simp only: derive_salt_def identity_derive_def)
qed

text \<open>The public key blob of the \<open>authorized_keys\<close> line is RFC 4253: it decodes as the
  string \<open>ssh-ed25519\<close> followed by the 32 bytes of the key and nothing else.\<close>

lemma ssh_wire_decodes:
  assumes "length pk = 32"
  shows "take_ssh_string (ssh_wire_public_key pk) =
      Some (str_bytes ''ssh-ed25519'', u32_to_be_bytes 32 @ pk) \<and>
    take_ssh_string (u32_to_be_bytes 32 @ pk) = Some (pk, []) \<and>
    length (ssh_wire_public_key pk) = 51"
proof -
  have "length KEY_TYPE = 11" by (simp add: KEY_TYPE_def)
  then show ?thesis
    using take_ssh_string_encoded [of KEY_TYPE "u32_to_be_bytes 32 @ pk"]
      take_ssh_string_encoded [of pk "[]"] assms
    by (simp add: ssh_wire_public_key_def KEY_TYPE_def)
qed



end
