(* ===== verification/Cry_Text.thy ===== *)
theory Cry_Text
  imports Cry_Identity
begin

text \<open>
  Text handling of \<open>src/ssh.rs\<close>: the standard library's \<open>trim\<close>, \<open>lines\<close> and
  prefix operations, the parser of \<open>ssh-agent\<close>'s output (\<open>extract_var\<close>), and its
  behaviour on the two styles of output the agent prints.
\<close>

section \<open>Text handling\<close>

text \<open>The UTF-8 encodings of the Unicode white space characters.\<close>

definition white_space :: "string list" where
  "white_space =
     map (\<lambda>n. [char_of (n :: nat)]) [9, 10, 11, 12, 13, 32] @
     [[CHR 0xC2, CHR 0x85], [CHR 0xC2, CHR 0xA0], [CHR 0xE1, CHR 0x9A, CHR 0x80]] @
     map (\<lambda>n. [CHR 0xE2, CHR 0x80, char_of (n :: nat)])
       [128, 129, 130, 131, 132, 133, 134, 135, 136, 137, 138, 168, 169, 175] @
     [[CHR 0xE2, CHR 0x81, CHR 0x9F], [CHR 0xE3, CHR 0x80, CHR 0x80]]"

function strip_tokens :: "string list \<Rightarrow> string \<Rightarrow> string" where
  "strip_tokens toks s =
    (case find (\<lambda>t. t \<noteq> [] \<and> take (length t) s = t) toks of
       None \<Rightarrow> s
     | Some t \<Rightarrow> strip_tokens toks (drop (length t) s))"
  by pat_completeness auto
termination
proof (relation "measure (length \<circ> snd)", goal_cases)
  case (2 toks s t)
  then have "t \<noteq> []" "take (length t) s = t" by (auto simp: find_Some_iff)
  then have "s \<noteq> []" by (cases s) auto
  with \<open>t \<noteq> []\<close> show ?case by simp
qed simp

declare strip_tokens.simps [simp del]

definition trim :: "string \<Rightarrow> string" where
  "trim s = rev (strip_tokens (map rev white_space) (rev (strip_tokens white_space s)))"

text \<open>\<open>str::lines\<close>: a line ends at a newline, one carriage return before it is dropped, and
  an empty rest is no line.\<close>

fun split_lines :: "string \<Rightarrow> string \<Rightarrow> string list" where
  "split_lines acc [] = (if acc = [] then [] else [rev acc])"
| "split_lines acc (c # s) =
     (if c = CHR 0x0A
      then rev (case acc of d # r \<Rightarrow> if d = CHR 0x0D then r else acc | [] \<Rightarrow> []) # split_lines [] s
      else split_lines (c # acc) s)"

definition strip_prefix :: "string \<Rightarrow> string \<Rightarrow> string option" where
  "strip_prefix p s = (if take (length p) s = p then Some (drop (length p) s) else None)"

definition before :: "char \<Rightarrow> string \<Rightarrow> string" where
  "before c s = takeWhile (\<lambda>d. d \<noteq> c) s"

text \<open>The second part of \<open>splitn(3, ' ')\<close>, if there is one.\<close>

definition second_word :: "string \<Rightarrow> string option" where
  "second_word s =
    (case dropWhile (\<lambda>d. d \<noteq> CHR '' '') s of
       [] \<Rightarrow> None
     | _ # r \<Rightarrow> Some (before (CHR '' '') r))"

fun extract_from_lines :: "string \<Rightarrow> string list \<Rightarrow> string option" where
  "extract_from_lines var [] = None"
| "extract_from_lines var (l # ls) =
    (let line = trim l in
     case strip_prefix (var @ ''='') line of
       Some rest \<Rightarrow> Some (trim (before (CHR '';'') rest))
     | None \<Rightarrow>
         (case strip_prefix ''setenv '' line of
            Some rest \<Rightarrow>
              if before (CHR '' '') rest = var
              then (case second_word rest of
                      None \<Rightarrow> None
                    | Some v \<Rightarrow> Some (trim_end_matches (CHR '';'') v))
              else extract_from_lines var ls
          | None \<Rightarrow> extract_from_lines var ls))"

definition extract_var :: "string \<Rightarrow> string \<Rightarrow> string option" where
  "extract_var text var = extract_from_lines var (split_lines [] text)"

section \<open>Parsing the agent's output\<close>

text \<open>Printable ASCII without the semicolon: what socket paths and process ids are made of.\<close>

definition plain_char :: "char \<Rightarrow> bool" where
  "plain_char c \<longleftrightarrow> 32 < (of_char c :: nat) \<and> (of_char c :: nat) < 127 \<and> c \<noteq> CHR '';''"

definition visible :: "char \<Rightarrow> bool" where
  "visible c \<longleftrightarrow> 32 < (of_char c :: nat) \<and> (of_char c :: nat) < 127"

lemma strip_tokens_stop:
  assumes "s \<noteq> []" "\<And>t. t \<in> set toks \<Longrightarrow> t \<noteq> [] \<Longrightarrow> hd t \<noteq> hd s"
  shows "strip_tokens toks s = s"
proof -
  have "find (\<lambda>t. t \<noteq> [] \<and> take (length t) s = t) toks = None"
    using assms by (auto simp: find_None_iff) (metis hd_take length_greater_0_conv)
  then show ?thesis by (simp add: strip_tokens.simps [of toks s])
qed

lemma white_space_heads:
  "list_all (\<lambda>t. \<not> visible (hd t)) white_space"
  "list_all (\<lambda>t. \<not> visible (hd t)) (map rev white_space)"
  by code_simp+

lemma trim_visible:
  assumes "s \<noteq> []" "visible (hd s)" "visible (last s)"
  shows "trim s = s"
proof -
  have "strip_tokens white_space s = s"
    using assms(1,2) white_space_heads(1) by (intro strip_tokens_stop) (auto simp: list_all_iff)
  moreover have "strip_tokens (map rev white_space) (rev s) = rev s"
  proof (rule strip_tokens_stop)
    show "rev s \<noteq> []" using assms(1) by simp
    show "hd t \<noteq> hd (rev s)" if "t \<in> set (map rev white_space)" for t
      using white_space_heads(2) that assms(3) by (metis hd_rev list_all_iff)
  qed
  ultimately show ?thesis by (simp add: trim_def)
qed

lemma split_lines_run:
  "CHR 0x0A \<notin> set l \<Longrightarrow> split_lines acc (l @ s) = split_lines (rev l @ acc) s"
  by (induction l arbitrary: acc) auto

lemma split_lines_line:
  assumes "CHR 0x0A \<notin> set l" "l \<noteq> []" "last l \<noteq> CHR 0x0D"
  shows "split_lines [] (l @ CHR 0x0A # s) = l # split_lines [] s"
proof -
  obtain l' c where l: "l = l' @ [c]" using assms(2) by (metis append_butlast_last_id)
  then have "split_lines [] (l @ CHR 0x0A # s) = split_lines (rev l) (CHR 0x0A # s)"
    using split_lines_run [OF assms(1), of "[]"] by simp
  with l assms(3) show ?thesis by simp
qed

lemma before_append: "c \<notin> set l \<Longrightarrow> before c (l @ c # s) = l"
  unfolding before_def by (induction l) auto

lemma strip_prefix_append [simp]: "strip_prefix p (p @ s) = Some s"
  by (simp add: strip_prefix_def)

text \<open>One line of \<open>ssh-agent -s\<close> and of \<open>ssh-agent -c\<close>.\<close>

definition sh_line :: "string \<Rightarrow> string \<Rightarrow> string" where
  "sh_line var v = var @ ''='' @ v @ ''; export '' @ var @ '';''"

definition csh_line :: "string \<Rightarrow> string \<Rightarrow> string" where
  "csh_line var v = ''setenv '' @ var @ '' '' @ v @ '';''"

lemma plain_visible:
  "list_all plain_char v \<Longrightarrow> v \<noteq> [] \<Longrightarrow> visible (hd v) \<and> visible (last v)"
  by (auto simp: list_all_iff plain_char_def visible_def dest: hd_in_set last_in_set)

lemma extract_sh_line:
  assumes "list_all plain_char v" "v \<noteq> []" "list_all plain_char var" "var \<noteq> []"
  shows "extract_from_lines var (sh_line var v # ls) = Some v"
proof -
  have "visible (hd (sh_line var v))" "visible (last (sh_line var v))" "sh_line var v \<noteq> []"
    using plain_visible [OF assms(3,4)] assms(4) by (auto simp: sh_line_def visible_def)
  then have "trim (sh_line var v) = sh_line var v" by (simp add: trim_visible)
  moreover have "strip_prefix (var @ ''='') (sh_line var v) = Some (v @ ''; export '' @ var @ '';'')"
    using strip_prefix_append [of "var @ ''=''" "v @ ''; export '' @ var @ '';''"]
    by (simp only: sh_line_def append_assoc)
  moreover have "before (CHR '';'') (v @ ''; export '' @ var @ '';'') = v"
    using assms(1) before_append [of "CHR '';''" v "'' export '' @ var @ '';''"]
    by (auto simp: list_all_iff plain_char_def)
  moreover have "trim v = v" using plain_visible [OF assms(1,2)] assms(2) by (simp add: trim_visible)
  ultimately show ?thesis by (simp add: Let_def)
qed

lemma sh_line_trim:
  assumes "list_all plain_char var" "var \<noteq> []"
  shows "trim (sh_line var v) = sh_line var v"
  using plain_visible [OF assms] assms(2)
  by (intro trim_visible) (auto simp: sh_line_def visible_def)

lemma csh_line_trim: "trim (csh_line var v) = csh_line var v"
  by (intro trim_visible) (auto simp: csh_line_def visible_def)

lemma dropWhile_stop: "c \<notin> set l \<Longrightarrow> dropWhile (\<lambda>d. d \<noteq> c) (l @ c # s) = c # s"
  by (induction l) auto

lemma before_none: "c \<notin> set l \<Longrightarrow> before c l = l"
  by (auto simp: before_def takeWhile_eq_all_conv)

lemma plain_no_blank: "list_all plain_char v \<Longrightarrow> CHR '' '' \<notin> set v \<and> CHR '';'' \<notin> set v \<and> CHR 0x0A \<notin> set v"
proof -
  have "\<not> plain_char (CHR '' '')" "\<not> plain_char (CHR '';'')" "\<not> plain_char (CHR 0x0A)"
    by (simp_all add: plain_char_def)
  then show "list_all plain_char v \<Longrightarrow> ?thesis" unfolding list_all_iff by blast
qed

lemma extract_csh_line:
  assumes "list_all plain_char v" "list_all plain_char var" "hd var \<noteq> CHR ''s''" "var \<noteq> []"
  shows "extract_from_lines var (csh_line var v # ls) = Some v"
proof -
  have "strip_prefix (var @ ''='') (csh_line var v) = None"
    using assms(3,4) by (cases var) (auto simp: strip_prefix_def csh_line_def)
  moreover have "strip_prefix ''setenv '' (csh_line var v) = Some (var @ '' '' @ v @ '';'')"
    unfolding csh_line_def by (rule strip_prefix_append)
  moreover have "before (CHR '' '') (var @ '' '' @ v @ '';'') = var"
    using before_append [of "CHR '' ''" var "v @ '';''"] plain_no_blank [OF assms(2)] by simp
  moreover have "second_word (var @ '' '' @ v @ '';'') = Some (v @ '';'')"
    using dropWhile_stop [of "CHR '' ''" var "v @ '';''"] plain_no_blank [OF assms(2)]
      plain_no_blank [OF assms(1)] by (simp add: second_word_def before_none)
  moreover have "trim_end_matches (CHR '';'') (v @ '';'') = v"
  proof -
    have "dropWhile (\<lambda>d. d = CHR '';'') (rev v) = rev v"
    proof (cases "rev v")
      case (Cons c r)
      then have "c \<in> set v" by (metis list.set_intros(1) set_rev)
      with Cons plain_no_blank [OF assms(1)] show ?thesis by auto
    qed simp
    then show ?thesis by (simp add: trim_end_matches_def)
  qed
  ultimately show ?thesis by (simp add: Let_def csh_line_trim)
qed

lemma extract_skips:
  "extract_from_lines ''SSH_AGENT_PID'' (sh_line ''SSH_AUTH_SOCK'' v # ls) = extract_from_lines ''SSH_AGENT_PID'' ls"
  "extract_from_lines ''SSH_AGENT_PID'' (csh_line ''SSH_AUTH_SOCK'' v # ls) = extract_from_lines ''SSH_AGENT_PID'' ls"
proof -
  have var: "list_all plain_char ''SSH_AUTH_SOCK''" by (simp add: plain_char_def)
  show "extract_from_lines ''SSH_AGENT_PID'' (sh_line ''SSH_AUTH_SOCK'' v # ls) =
      extract_from_lines ''SSH_AGENT_PID'' ls"
    using sh_line_trim [OF var] by (simp add: Let_def strip_prefix_def) (simp add: sh_line_def)
  show "extract_from_lines ''SSH_AGENT_PID'' (csh_line ''SSH_AUTH_SOCK'' v # ls) =
      extract_from_lines ''SSH_AGENT_PID'' ls"
    using csh_line_trim [of "''SSH_AUTH_SOCK''" v]
    by (simp add: Let_def strip_prefix_def) (simp add: csh_line_def before_def)
qed

text \<open>The whole output in both styles.\<close>

definition agent_text :: "(string \<Rightarrow> string \<Rightarrow> string) \<Rightarrow> string \<Rightarrow> string \<Rightarrow> string" where
  "agent_text line sock p =
     line ''SSH_AUTH_SOCK'' sock @ [CHR 0x0A] @ line ''SSH_AGENT_PID'' p @ [CHR 0x0A] @
     ''echo Agent pid '' @ p @ '';'' @ [CHR 0x0A]"

lemma agent_text_lines:
  assumes "list_all plain_char sock" "list_all plain_char p" "line \<in> {sh_line, csh_line}"
  shows "\<exists>ls. split_lines [] (agent_text line sock p) =
    line ''SSH_AUTH_SOCK'' sock # line ''SSH_AGENT_PID'' p # ls"
proof -
  have "CHR 0x0A \<notin> set (line var v)" "line var v \<noteq> []" "last (line var v) \<noteq> CHR 0x0D"
    if "CHR 0x0A \<notin> set var" "CHR 0x0A \<notin> set v" for var v
    using assms(3) that by (auto simp: sh_line_def csh_line_def)
  then have "split_lines [] (line var v @ CHR 0x0A # s) = line var v # split_lines [] s"
    if "CHR 0x0A \<notin> set var" "CHR 0x0A \<notin> set v" for var v s
    using that by (intro split_lines_line) auto
  then show ?thesis
    using plain_no_blank [OF assms(1)] plain_no_blank [OF assms(2)] by (simp add: agent_text_def)
qed

section \<open>Properties\<close>

text \<open>C32. What \<open>ssh-agent\<close> prints is parsed: for every socket path and process id of
  printable ASCII characters without semicolon, both values are found in the Bourne-shell output
  and in the C-shell output.\<close>

theorem agent_output_is_parsed:
  assumes "list_all plain_char sock" "sock \<noteq> []" "list_all plain_char p" "p \<noteq> []"
    and "line = sh_line \<or> line = csh_line"
  shows "extract_var (agent_text line sock p) ''SSH_AUTH_SOCK'' = Some sock \<and>
    extract_var (agent_text line sock p) ''SSH_AGENT_PID'' = Some p"
proof -
  have var: "list_all plain_char ''SSH_AUTH_SOCK''" "list_all plain_char ''SSH_AGENT_PID''"
    by (simp_all add: plain_char_def)
  obtain ls where ls: "split_lines [] (agent_text line sock p) =
      line ''SSH_AUTH_SOCK'' sock # line ''SSH_AGENT_PID'' p # ls"
    using agent_text_lines [OF assms(1,3), of line] assms(5) by blast
  show ?thesis
    using assms(5)
  proof
    assume "line = sh_line"
    then show ?thesis
      using ls extract_sh_line [OF assms(1,2) var(1)] extract_sh_line [OF assms(3,4) var(2)]
      by (simp add: extract_var_def extract_skips del: extract_from_lines.simps)
  next
    assume "line = csh_line"
    then show ?thesis
      using ls extract_csh_line [OF assms(1) var(1)] extract_csh_line [OF assms(3) var(2)]
      by (simp add: extract_var_def extract_skips del: extract_from_lines.simps)
  qed
qed

theorem agent_output_is_parsed_witness:
  "extract_var (agent_text csh_line ''/t/a'' ''7'') ''SSH_AUTH_SOCK'' = Some ''/t/a''"
  using agent_output_is_parsed [of "''/t/a''" "''7''" csh_line] by (simp add: plain_char_def)

end
