(* ===== verification/Cry_Ssh.thy ===== *)
theory Cry_Ssh
  imports Cry_Text
begin

text \<open>
  SSH with an ephemeral key, \<open>src/ssh.rs\<close>, the common part and the Unix variant: a run is
  a trace of process events, the agent a guarded resource released on every path.
\<close>

section \<open>Guarded resources\<close>

text \<open>A guard is acquired, used, and dropped when the function returns, however it returns.\<close>

definition bracket ::
  "('s \<Rightarrow> ('e + 'g) \<times> 's) \<Rightarrow> ('g \<Rightarrow> 's \<Rightarrow> ('e + 'a) \<times> 's) \<Rightarrow> ('g \<Rightarrow> 's \<Rightarrow> 's) \<Rightarrow> 's \<Rightarrow>
     ('e + 'a) \<times> 's" where
  "bracket acquire body release s =
     and_then (acquire s) (\<lambda>g s. let (r, s) = body g s in (r, release g s))"

locale raii =
  fixes acquire :: "'s \<Rightarrow> ('e + 'g) \<times> 's"
    and release :: "'g \<Rightarrow> 's \<Rightarrow> 's"
    and idle :: "'s \<Rightarrow> bool"
    and held :: "'g \<Rightarrow> 's \<Rightarrow> bool"
  assumes acquired: "idle s \<Longrightarrow> acquire s = (Inr g, s') \<Longrightarrow> held g s'"
    and released: "held g s \<Longrightarrow> idle (release g s)"
begin

lemma bracket_idle:
  assumes "idle s" and "acquire s = (Inr g, s1)" and "held g s1 \<Longrightarrow> held g (snd (body g s1))"
  shows "idle (snd (bracket acquire body release s))"
  using released [OF assms(3) [OF acquired [OF assms(1,2)]]] assms(2)
  by (simp add: bracket_def split_beta)

lemma bracket_result:
  "acquire s = (Inr g, s1) \<Longrightarrow> fst (bracket acquire body release s) = fst (body g s1)"
  by (simp add: bracket_def split_beta)

end

section \<open>Arguments and the key\<close>

record ssh_args =
  sa_target :: string
  sa_passphrase :: "string option"
  sa_namespace :: string
  sa_key_version :: u32
  sa_sub_id :: "string option"
  sa_pass_file :: "string option"
  sa_port :: "16 word option"
  sa_ssh_args :: "string list"

definition append_common_ssh_args :: "string list \<Rightarrow> ssh_args \<Rightarrow> string list" where
  "append_common_ssh_args cmd args =
     cmd @
     (case sa_port args of None \<Rightarrow> [] | Some port \<Rightarrow> [''-p'', show_nat (unat port)]) @
     sa_ssh_args args @
     [sa_target args]"

definition encode_openssh_private_key ::
  "crypto \<Rightarrow> identity \<Rightarrow> string \<Rightarrow> cry_error + string" where
  "encode_openssh_private_key P i comment =
    (case ssh_keypair_from_bytes P (to_keypair_bytes P i) of
       Inl e \<Rightarrow> Inl (InvalidFormat (''OpenSSH key build failed: '' @ e))
     | Inr keypair \<Rightarrow>
         (case ssh_private_key_new P keypair comment of
            Inl e \<Rightarrow> Inl (InvalidFormat (''OpenSSH key build failed: '' @ e))
          | Inr private \<Rightarrow>
              (case ssh_key_to_openssh P private of
                 Inl e \<Rightarrow> Inl (InvalidFormat (''OpenSSH key encode failed: '' @ e))
               | Inr pem \<Rightarrow> Inr pem)))"

section \<open>Unix: the temporary agent\<close>

text \<open>
  What the child processes do: the agent's exit status and output, the spawning, feeding and
  outcome of \<open>ssh-add\<close>, the exit of \<open>ssh\<close>, and the wording of errors. Output is its
  text after \<open>from_utf8_lossy\<close>. \<open>AgentKill\<close> is the run of \<open>ssh-agent -k\<close>
  with the given socket and, if known, process id; its own outcome is ignored by the program.
\<close>

record ssh_env =
  agent_output :: "io_error + (bool \<times> string \<times> string)"
  add_spawn :: "io_error + unit"
  add_stdin :: "io_error + unit"
  add_output :: "io_error + (bool \<times> string)"
  ssh_status :: "io_error + bool"
  os_text :: "io_error \<Rightarrow> string"

datatype ssh_event =
    AgentStarted
  | KeyPiped string string
  | SshRun "(string \<times> string option) list" "string list"
  | AgentKill string "string option"

record temp_agent =
  socket :: string
  pid :: "string option"

type_synonym trace = "ssh_event list"

definition agent_spawn :: "ssh_env \<Rightarrow> trace \<Rightarrow> (cry_error + temp_agent) \<times> trace" where
  "agent_spawn env tr =
    (case agent_output env of
       Inl e \<Rightarrow> (Inl (InvalidFormat (''Failed to spawn ssh-agent: '' @ os_text env e @ [CHR 0x0A] @
         ''Make sure openssh-client is installed (e.g. `apt install openssh-client`).'')), tr)
     | Inr (success, out, err) \<Rightarrow>
         if \<not> success then (Inl (InvalidFormat (''ssh-agent exited with error: '' @ err)), tr)
         else
           let tr = tr @ [AgentStarted] in
           (case extract_var out ''SSH_AUTH_SOCK'' of
              None \<Rightarrow> (Inl (InvalidFormat
                (''Could not parse SSH_AUTH_SOCK from ssh-agent output:'' @ [CHR 0x0A] @ out)), tr)
            | Some sock \<Rightarrow> (Inr \<lparr>socket = sock, pid = extract_var out ''SSH_AGENT_PID''\<rparr>, tr)))"

definition add_private_key :: "ssh_env \<Rightarrow> temp_agent \<Rightarrow> string \<Rightarrow> trace \<Rightarrow> (cry_error + unit) \<times> trace" where
  "add_private_key env agent key_pem tr =
    (case add_spawn env of
       Inl e \<Rightarrow> (Inl (InvalidFormat (''Failed to spawn ssh-add: '' @ os_text env e)), tr)
     | Inr _ \<Rightarrow>
         let tr = tr @ [KeyPiped (socket agent) key_pem] in
         (case add_stdin env of
            Inl e \<Rightarrow> (Inl (Io e), tr)
          | Inr _ \<Rightarrow>
              (case add_output env of
                 Inl e \<Rightarrow> (Inl (Io e), tr)
               | Inr (success, err) \<Rightarrow>
                   if \<not> success then (Inl (InvalidFormat (''ssh-add failed: '' @ err)), tr)
                   else (Inr (), tr))))"

definition agent_drop :: "temp_agent \<Rightarrow> trace \<Rightarrow> trace" where
  "agent_drop agent tr = tr @ [AgentKill (socket agent) (pid agent)]"

definition unix_ssh_command :: "temp_agent \<Rightarrow> ssh_args \<Rightarrow> ssh_event" where
  "unix_ssh_command agent args =
     SshRun [(''SSH_AUTH_SOCK'', Some (socket agent)), (''SSH_AGENT_PID'', None)]
       (append_common_ssh_args
         [''-o'', ''IdentityAgent='' @ socket agent, ''-o'', ''IdentitiesOnly=yes'',
          ''-o'', ''PubkeyAuthentication=yes'', ''-o'', ''PreferredAuthentications=publickey''] args)"

definition ssh_session :: "ssh_env \<Rightarrow> ssh_args \<Rightarrow> string \<Rightarrow> temp_agent \<Rightarrow> trace \<Rightarrow> (cry_error + unit) \<times> trace" where
  "ssh_session env args key_pem agent tr =
     and_then (add_private_key env agent key_pem tr) (\<lambda>_ tr.
     case ssh_status env of
       Inl e \<Rightarrow> (Inl (InvalidFormat (''Failed to exec ssh: '' @ os_text env e)), tr)
     | Inr success \<Rightarrow> (Inr (), tr @ [unix_ssh_command agent args]))"

definition run_ssh_unix :: "ssh_env \<Rightarrow> ssh_args \<Rightarrow> string \<Rightarrow> trace \<Rightarrow> (cry_error + unit) \<times> trace" where
  "run_ssh_unix env args key_pem tr =
     bracket (agent_spawn env) (ssh_session env args key_pem) agent_drop tr"

text \<open>The Unix entry point; the key exists only in memory and in the trace.\<close>

definition run_ssh ::
  "crypto \<Rightarrow> ssh_env \<Rightarrow> ssh_args \<Rightarrow> bytes \<Rightarrow> trace \<Rightarrow> (cry_error + unit) \<times> trace" where
  "run_ssh P env args passphrase tr =
     and_then (identity_derive P passphrase (sa_namespace args) (sa_key_version args) (sa_sub_id args), tr)
       (\<lambda>i tr.
     let comment = ''CryDNA:'' @ sa_namespace args
     in and_then (encode_openssh_private_key P i comment, tr) (\<lambda>key_pem tr.
        run_ssh_unix env args key_pem tr))"

section \<open>The life of an agent\<close>

text \<open>
  The allowed orders of events: the key goes to a started agent, ssh runs on the socket the key
  went to and on no other, and the agent can be killed at any time, on the socket in use.
\<close>

datatype phase = NoAgent | AgentUp | KeyLoaded string | SessionOver string

inductive agent_step :: "phase \<Rightarrow> ssh_event \<Rightarrow> phase \<Rightarrow> bool" where
  start: "agent_step NoAgent AgentStarted AgentUp"
| pipe: "agent_step AgentUp (KeyPiped sock key) (KeyLoaded sock)"
| session: "(''SSH_AUTH_SOCK'', Some sock) \<in> set env \<Longrightarrow> agent_step (KeyLoaded sock) (SshRun env args) (SessionOver sock)"
| kill_fresh: "agent_step AgentUp (AgentKill sock p) NoAgent"
| kill_loaded: "agent_step (KeyLoaded sock) (AgentKill sock p) NoAgent"
| kill_over: "agent_step (SessionOver sock) (AgentKill sock p) NoAgent"

inductive_cases start_cases: "agent_step ph AgentStarted ph'"
inductive_cases pipe_cases: "agent_step ph (KeyPiped sock key) ph'"
inductive_cases run_cases: "agent_step ph (SshRun env args) ph'"
inductive_cases kill_cases: "agent_step ph (AgentKill sock p) ph'"

inductive agent_life :: "trace \<Rightarrow> phase \<Rightarrow> bool" where
  nothing: "agent_life [] NoAgent"
| more: "agent_life tr ph \<Longrightarrow> agent_step ph ev ph' \<Longrightarrow> agent_life (tr @ [ev]) ph'"

text \<open>
  Agents started and not yet told to quit. A kill without a process id does not count: \<open>ssh-agent -k\<close>
  finds its agent by \<open>SSH_AGENT_PID\<close>, which is then the inherited one.
\<close>

definition agents_running :: "trace \<Rightarrow> int" where
  "agents_running tr =
     int (length (filter (\<lambda>ev. ev = AgentStarted) tr)) -
     int (length (filter (\<lambda>ev. \<exists>sock p. ev = AgentKill sock (Some p)) tr))"

definition blind_kills :: "trace \<Rightarrow> int" where
  "blind_kills tr = int (length (filter (\<lambda>ev. \<exists>sock. ev = AgentKill sock None) tr))"

lemma agents_running_snoc [simp]:
  "agents_running [] = 0"
  "agents_running (tr @ [AgentStarted]) = agents_running tr + 1"
  "agents_running (tr @ [KeyPiped sock key]) = agents_running tr"
  "agents_running (tr @ [SshRun env args]) = agents_running tr"
  "agents_running (tr @ [AgentKill sock p]) = agents_running tr - (if p = None then 0 else 1)"
  by (auto simp: agents_running_def)

lemma blind_kills_snoc [simp]:
  "blind_kills [] = 0"
  "blind_kills (tr @ [AgentStarted]) = blind_kills tr"
  "blind_kills (tr @ [KeyPiped sock key]) = blind_kills tr"
  "blind_kills (tr @ [SshRun env args]) = blind_kills tr"
  "blind_kills (tr @ [AgentKill sock p]) = blind_kills tr + (if p = None then 1 else 0)"
  by (auto simp: blind_kills_def)

text \<open>Every agent that is left over was killed blindly or is the one in use.\<close>

lemma agent_life_running:
  "agent_life tr ph \<Longrightarrow> agents_running tr = blind_kills tr + (if ph = NoAgent then 0 else 1)"
  by (induction rule: agent_life.induct) (auto elim!: agent_step.cases)

lemma agent_life_key:
  "agent_life tr ph \<Longrightarrow>
     (\<forall>sock. ph = KeyLoaded sock \<or> ph = SessionOver sock \<longrightarrow> (\<exists>key. KeyPiped sock key \<in> set tr))"
  by (induction rule: agent_life.induct) (auto elim!: agent_step.cases)

lemma agent_life_sessions:
  "agent_life tr ph \<Longrightarrow> tr = pre @ SshRun env args # post \<Longrightarrow>
     \<exists>sock key. (''SSH_AUTH_SOCK'', Some sock) \<in> set env \<and> KeyPiped sock key \<in> set pre"
proof (induction arbitrary: post rule: agent_life.induct)
  case (more tr ph ev ph')
  show ?case
  proof (cases post rule: rev_cases)
    case Nil
    with more have "ev = SshRun env args" "tr = pre" by auto
    with more agent_life_key [OF more.hyps(1)] show ?thesis by (auto elim!: run_cases)
  next
    case (snoc post' last)
    with more.prems have "tr = pre @ SshRun env args # post'" by auto
    with more.IH show ?thesis by blast
  qed
qed simp

lemma agent_life_prefix:
  "agent_life (tr @ tr') ph \<Longrightarrow> \<exists>ph'. agent_life tr ph'"
proof (induction tr' arbitrary: ph rule: rev_induct)
  case Nil
  then show ?case by auto
next
  case (snoc ev tr')
  from snoc.prems show ?case
  proof (cases rule: agent_life.cases)
    case (more tr0 ph0 ev0)
    with snoc.IH show ?thesis by simp
  qed simp
qed

subsection \<open>The Unix run is a guarded resource\<close>

definition agent_idle :: "trace \<Rightarrow> bool" where
  "agent_idle tr \<longleftrightarrow> agent_life tr NoAgent"

definition agent_held :: "temp_agent \<Rightarrow> trace \<Rightarrow> bool" where
  "agent_held agent tr \<longleftrightarrow>
     agent_life tr AgentUp \<or> agent_life tr (KeyLoaded (socket agent)) \<or>
     agent_life tr (SessionOver (socket agent))"

lemma agent_life_start: "agent_life tr NoAgent \<Longrightarrow> agent_life (tr @ [AgentStarted]) AgentUp"
  by (erule agent_life.more) (rule agent_step.start)

lemma agent_spawn_Inr:
  "agent_spawn env tr = (Inr g, tr') \<Longrightarrow> tr' = tr @ [AgentStarted]"
  by (auto simp: agent_spawn_def Let_def split: sum.splits if_splits option.splits)

interpretation agent: raii "agent_spawn env" agent_drop agent_idle agent_held for env
proof unfold_locales
  show "agent_held g s'" if "agent_idle s" "agent_spawn env s = (Inr g, s')" for s g s'
    using agent_life_start [of s] agent_spawn_Inr [OF that(2)] that(1)
    by (simp add: agent_idle_def agent_held_def)
  show "agent_idle (agent_drop g s)" if "agent_held g s" for g s
    using that by (auto simp: agent_held_def agent_drop_def agent_idle_def
        intro: agent_life.more agent_step.intros)
qed

lemma ssh_session_life:
  assumes "agent_life tr AgentUp"
  shows "agent_held agent (snd (ssh_session env args key agent tr))"
proof -
  have up: "agent_held agent tr" using assms by (simp add: agent_held_def)
  have piped: "agent_life (tr @ [KeyPiped (socket agent) key]) (KeyLoaded (socket agent))"
    using assms agent_step.pipe by (rule agent_life.more)
  moreover have "agent_life ((tr @ [KeyPiped (socket agent) key]) @ [unix_ssh_command agent args])
      (SessionOver (socket agent))"
    unfolding unix_ssh_command_def by (rule agent_life.more [OF piped]) (simp add: agent_step.session)
  ultimately show ?thesis
    using up by (auto simp: ssh_session_def add_private_key_def agent_held_def Let_def
        split: sum.splits prod.splits if_splits)
qed

lemma run_ssh_unix_idle:
  assumes "agent_idle tr" and "agent_spawn env tr = (Inr g, tr1)"
  shows "agent_idle (snd (run_ssh_unix env args key tr))"
  unfolding run_ssh_unix_def
  using assms agent_spawn_Inr [OF assms(2)]
  by (intro agent.bracket_idle [OF assms])
    (simp add: agent_idle_def agent_life_start ssh_session_life)

text \<open>All events of a run, in order.\<close>

lemma run_ssh_unix_trace:
  assumes "agent_spawn env tr = (Inr g, tr1)"
  shows "\<exists>mid. run_ssh_unix env args key tr = (fst (ssh_session env args key g tr1),
      tr @ AgentStarted # mid @ [AgentKill (socket g) (pid g)]) \<and>
    mid \<in> {[], [KeyPiped (socket g) key], [KeyPiped (socket g) key, unix_ssh_command g args]} \<and>
    (fst (ssh_session env args key g tr1) = Inr () \<longleftrightarrow>
       mid = [KeyPiped (socket g) key, unix_ssh_command g args])"
  using assms agent_spawn_Inr [OF assms]
  by (auto simp: run_ssh_unix_def bracket_def agent_drop_def ssh_session_def add_private_key_def
      Let_def split: sum.splits prod.splits if_splits)

section \<open>Properties\<close>

definition sample_ssh_env :: "string \<Rightarrow> ssh_env" where
  "sample_ssh_env out = \<lparr>agent_output = Inr (True, out, []), add_spawn = Inr (), add_stdin = Inr (),
     add_output = Inr (True, []), ssh_status = Inr False, os_text = (\<lambda>e. ''os error'')\<rparr>"

definition sample_ssh_args :: ssh_args where
  "sample_ssh_args = \<lparr>sa_target = ''u@h'', sa_passphrase = None, sa_namespace = ''default'',
     sa_key_version = 0, sa_sub_id = None, sa_pass_file = None, sa_port = Some 22, sa_ssh_args = [''-v'']\<rparr>"

lemma sample_agent_starts:
  assumes "agent_output env = Inr (True, agent_text sh_line ''/t/a'' ''7'', [])"
  shows "agent_spawn env [] = (Inr \<lparr>socket = ''/t/a'', pid = Some ''7''\<rparr>, [AgentStarted])"
proof -
  have "list_all plain_char ''/t/a''" "list_all plain_char ''7''"
    "list_all plain_char ''SSH_AUTH_SOCK''" "list_all plain_char ''SSH_AGENT_PID''"
    by (simp_all add: plain_char_def)
  then have "extract_var (agent_text sh_line ''/t/a'' ''7'') ''SSH_AUTH_SOCK'' = Some ''/t/a''"
    "extract_var (agent_text sh_line ''/t/a'' ''7'') ''SSH_AGENT_PID'' = Some ''7''"
    using agent_text_lines [of "''/t/a''" "''7''" sh_line]
    by (auto simp: extract_var_def extract_skips extract_sh_line simp del: extract_from_lines.simps)
  then show ?thesis using assms by (simp add: agent_spawn_def)
qed

text \<open>C21. The agent is never forgotten: once it has started and its socket is known, then
  whatever fails next (spawning or feeding \<open>ssh-add\<close>, its exit, starting \<open>ssh\<close>), the
  events follow the agent's life cycle and the last one is \<open>ssh-agent -k\<close> with the agent's own
  socket and the process id it printed. When it printed one, no agent is left; when it printed
  none, the command names no process and the agent stays.\<close>

theorem agent_kill_ends_every_run:
  assumes "agent_spawn env [] = (Inr g, tr0)"
    and "run_ssh_unix env args key [] = (res, tr)"
  shows "agent_life tr NoAgent \<and> last tr = AgentKill (socket g) (pid g) \<and>
    (pid g \<noteq> None \<longrightarrow> agents_running tr = 0) \<and> (pid g = None \<longrightarrow> agents_running tr = 1)"
proof -
  have idle: "agent_idle []" by (simp add: agent_idle_def agent_life.nothing)
  have life: "agent_life tr NoAgent"
    using run_ssh_unix_idle [OF idle assms(1), of args key] assms(2) by (simp add: agent_idle_def)
  obtain mid where tr: "tr = AgentStarted # mid @ [AgentKill (socket g) (pid g)]"
    and "mid \<in> {[], [KeyPiped (socket g) key], [KeyPiped (socket g) key, unix_ssh_command g args]}"
    using run_ssh_unix_trace [OF assms(1), of args key] assms(2) by auto
  then have "blind_kills tr = (if pid g = None then 1 else 0)"
    by (auto simp: blind_kills_def unix_ssh_command_def)
  then have "agents_running tr = (if pid g = None then 1 else 0)" using agent_life_running [OF life] by simp
  moreover have "last tr = AgentKill (socket g) (pid g)" by (simp add: tr)
  ultimately show ?thesis using life by simp
qed

theorem agent_kill_ends_every_run_witness:
  "\<exists>res tr. run_ssh_unix ((sample_ssh_env (agent_text sh_line ''/t/a'' ''7''))\<lparr>add_stdin := Inl WriteZero\<rparr>)
      sample_ssh_args ''KEY'' [] = (res, tr) \<and> KeyPiped ''/t/a'' ''KEY'' \<in> set tr \<and> agents_running tr = 0 \<and>
      last tr = AgentKill ''/t/a'' (Some ''7'')"
proof -
  let ?env = "(sample_ssh_env (agent_text sh_line ''/t/a'' ''7''))\<lparr>add_stdin := Inl WriteZero\<rparr>"
  have start: "agent_spawn ?env [] = (Inr \<lparr>socket = ''/t/a'', pid = Some ''7''\<rparr>, [AgentStarted])"
    by (rule sample_agent_starts) (simp add: sample_ssh_env_def)
  obtain res tr where run: "run_ssh_unix ?env sample_ssh_args ''KEY'' [] = (res, tr)" by fastforce
  then have "KeyPiped ''/t/a'' ''KEY'' \<in> set tr"
    using start by (auto simp: run_ssh_unix_def bracket_def ssh_session_def add_private_key_def agent_drop_def
        sample_ssh_env_def)
  with agent_kill_ends_every_run [OF start run] run show ?thesis by auto
qed

text \<open>C28. The session talks to the private agent only: in every run ssh is started only after the
  key was given to an agent, with \<open>SSH_AUTH_SOCK\<close> and \<open>IdentityAgent\<close> set to the
  socket the key went to, with public-key authentication only, and with the target last behind
  the user's own arguments; and \<open>run\<close> reports success exactly when ssh was started, whatever
  its exit status.\<close>

theorem ssh_uses_only_the_private_agent:
  assumes "run_ssh_unix env args key [] = (res, tr)"
  shows "(\<forall>pre e cmd post. tr = pre @ SshRun e cmd # post \<longrightarrow>
      (\<exists>sock rest. KeyPiped sock key \<in> set pre \<and> (''SSH_AUTH_SOCK'', Some sock) \<in> set e \<and>
         cmd = [''-o'', ''IdentityAgent='' @ sock, ''-o'', ''IdentitiesOnly=yes'', ''-o'',
           ''PubkeyAuthentication=yes'', ''-o'', ''PreferredAuthentications=publickey''] @ rest @
           [sa_target args])) \<and>
    (res = Inr () \<longleftrightarrow> (\<exists>e cmd. SshRun e cmd \<in> set tr))"
proof (cases "fst (agent_spawn env [])")
  case (Inl x)
  then have "snd (agent_spawn env []) = tr" "res = Inl x"
    using assms by (auto simp: run_ssh_unix_def bracket_def and_then_def split: prod.splits)
  moreover have "snd (agent_spawn env []) = [] \<or> snd (agent_spawn env []) = [AgentStarted]"
    by (auto simp: agent_spawn_def Let_def split: sum.splits option.splits)
  ultimately show ?thesis by (auto simp: Cons_eq_append_conv append_eq_Cons_conv)
next
  case (Inr g)
  then obtain tr1 where sp: "agent_spawn env [] = (Inr g, tr1)" by (metis prod.collapse)
  from run_ssh_unix_trace [OF sp, of args key] assms obtain mid where
    tr: "tr = AgentStarted # mid @ [AgentKill (socket g) (pid g)]"
    and mid: "mid \<in> {[], [KeyPiped (socket g) key], [KeyPiped (socket g) key, unix_ssh_command g args]}"
    and ok: "res = Inr () \<longleftrightarrow> mid = [KeyPiped (socket g) key, unix_ssh_command g args]"
    by auto
  with tr mid ok show ?thesis
    by (auto simp: unix_ssh_command_def append_common_ssh_args_def Cons_eq_append_conv append_eq_Cons_conv)
qed

theorem ssh_uses_only_the_private_agent_witness:
  "\<exists>res tr. run_ssh_unix (sample_ssh_env (agent_text sh_line ''/t/a'' ''7'')) sample_ssh_args ''KEY'' [] =
     (res, tr) \<and> (res = Inr () \<longleftrightarrow> (\<exists>e cmd. SshRun e cmd \<in> set tr))"
proof -
  obtain res tr where run: "run_ssh_unix (sample_ssh_env (agent_text sh_line ''/t/a'' ''7''))
    sample_ssh_args ''KEY'' [] = (res, tr)" by fastforce
  from ssh_uses_only_the_private_agent [OF run] run show ?thesis by blast
qed

text \<open>An agent is leaked when its output cannot be parsed: it has been started, the run fails,
  and nothing kills it, because the guard exists only once the socket is known.\<close>

lemma unparsable_agent_is_leaked:
  assumes "agent_output env = Inr (True, out, err)" and "extract_var out ''SSH_AUTH_SOCK'' = None"
  shows "\<exists>e. run_ssh_unix env args key [] = (Inl e, [AgentStarted]) \<and> agents_running [AgentStarted] = 1"
  using assms agents_running_snoc(2) [of "[]"]
  by (auto simp: run_ssh_unix_def bracket_def agent_spawn_def)

end
