(* ===== verification/Cry_Keygen.thy ===== *)
theory Cry_Keygen
  imports Cry_Identity
begin

text \<open>
  Key files, \<open>src/keygen.rs\<close>: fresh keys, derived keys, the names of the output files and the
  checks before anything is written. Progress output is left out.
\<close>

section \<open>Arguments and names\<close>

datatype key_algorithm = Ed25519 | Rsa | AesKey

record keygen_args =
  kg_algo :: key_algorithm
  kg_bits :: nat
  kg_output :: string
  kg_sub_id :: "string option"
  kg_force :: bool
  kg_openssh :: bool
  kg_comment :: string

record derive_args =
  da_algo :: key_algorithm
  da_bits :: nat
  da_passphrase :: "string option"
  da_namespace :: string
  da_key_version :: u32
  da_output :: string
  da_sub_id :: "string option"
  da_force :: bool
  da_openssh :: bool
  da_comment :: string

definition names :: "string \<Rightarrow> key_algorithm \<Rightarrow> string \<times> string option" where
  "names base algo =
    (let priv_path = base @ ''.cry_id''
     in case algo of
          AesKey \<Rightarrow> (priv_path, None)
        | _ \<Rightarrow> (priv_path, Some (base @ ''.cry_pub_id'')))"

definition openssh_path :: "string \<Rightarrow> string" where
  "openssh_path path = path @ ''.openssh_id''"

definition openssh_pub_path :: "string \<Rightarrow> string" where
  "openssh_pub_path path = path @ ''.openssh_pub''"

section \<open>Writing one file\<close>

definition write_private_key ::
  "crypto \<Rightarrow> string \<Rightarrow> bytes \<Rightarrow> bool \<Rightarrow> world \<Rightarrow> (cry_error + unit) \<times> world" where
  "write_private_key P path bs force w =
     and_then (ensure_writable path force w) (\<lambda>_ w.
     and_then (map_err Io (fs_write path (str_bytes (hex_encode P bs)) w)) (\<lambda>_ w.
     (Inr (), w)))"

definition write_public_key ::
  "crypto \<Rightarrow> string \<Rightarrow> bytes \<Rightarrow> bool \<Rightarrow> world \<Rightarrow> (cry_error + unit) \<times> world" where
  "write_public_key P path bs force w =
     and_then (ensure_writable path force w) (\<lambda>_ w.
     and_then (map_err Io (fs_write path (str_bytes (hex_encode P bs)) w)) (\<lambda>_ w.
     (Inr (), w)))"

text \<open>\<open>std::str::from_utf8\<close>: the well-formed byte sequences of the Unicode standard.\<close>

definition cont :: "byte \<Rightarrow> bool" where
  "cont b = (0x80 \<le> b \<and> b \<le> 0xBF)"

fun valid_utf8 :: "bytes \<Rightarrow> bool" where
  "valid_utf8 [] = True"
| "valid_utf8 (a # r) =
    (if a < 0x80 then valid_utf8 r
     else (case r of
       [] \<Rightarrow> False
     | b # r \<Rightarrow>
         if 0xC2 \<le> a \<and> a \<le> 0xDF then cont b \<and> valid_utf8 r
         else (case r of
           [] \<Rightarrow> False
         | c # r \<Rightarrow>
             if a = 0xE0 then 0xA0 \<le> b \<and> b \<le> 0xBF \<and> cont c \<and> valid_utf8 r
             else if a = 0xED then 0x80 \<le> b \<and> b \<le> 0x9F \<and> cont c \<and> valid_utf8 r
             else if 0xE1 \<le> a \<and> a \<le> 0xEF then cont b \<and> cont c \<and> valid_utf8 r
             else (case r of
               [] \<Rightarrow> False
             | d # r \<Rightarrow>
                 if a = 0xF0 then 0x90 \<le> b \<and> b \<le> 0xBF \<and> cont c \<and> cont d \<and> valid_utf8 r
                 else if 0xF1 \<le> a \<and> a \<le> 0xF3 then cont b \<and> cont c \<and> cont d \<and> valid_utf8 r
                 else a = 0xF4 \<and> 0x80 \<le> b \<and> b \<le> 0x8F \<and> cont c \<and> cont d \<and> valid_utf8 r))))"

definition write_openssh_private_key ::
  "crypto \<Rightarrow> string \<Rightarrow> identity \<Rightarrow> bytes \<Rightarrow> string \<Rightarrow> bool \<Rightarrow> world \<Rightarrow> (cry_error + unit) \<times> world" where
  "write_openssh_private_key P path i passphrase comment force w =
     and_then (ensure_writable path force w) (\<lambda>_ w.
     if \<not> valid_utf8 passphrase
     then (Inl (InvalidFormat ''OpenSSH passphrase must be valid UTF-8''), w) else
     and_then (openssh_private_key P (thread_entropy w) i (text_of passphrase) comment, w) (\<lambda>pem w.
     and_then (map_err Io (fs_write path (str_bytes pem) w)) (\<lambda>_ w.
     (Inr (), w))))"

section \<open>The Ed25519 outputs\<close>

text \<open>The checks before any key material exists, and the writes behind them; \<open>keygen\<close> and
  \<open>derive\<close> spell them alike.\<close>

definition ensure_outputs_writable ::
  "string \<Rightarrow> string \<Rightarrow> bool \<Rightarrow> bool \<Rightarrow> world \<Rightarrow> (cry_error + unit) \<times> world" where
  "ensure_outputs_writable priv pub openssh force w =
     and_then (ensure_writable priv force w) (\<lambda>_ w.
     and_then (ensure_writable pub force w) (\<lambda>_ w.
     if openssh then
       and_then (ensure_writable (openssh_path priv) force w) (\<lambda>_ w.
       ensure_writable (openssh_pub_path priv) force w)
     else (Inr (), w)))"

definition write_identity_files ::
  "crypto \<Rightarrow> string \<Rightarrow> string \<Rightarrow> identity \<Rightarrow> bool \<Rightarrow> bytes option \<Rightarrow> string \<Rightarrow> bool \<Rightarrow> world \<Rightarrow>
     (cry_error + unit) \<times> world" where
  "write_identity_files P priv pub i openssh openssh_passphrase comment force w =
     and_then (write_private_key_hex_file i priv force w) (\<lambda>_ w.
     and_then (write_public_key P pub (verifying_key P i) force w) (\<lambda>_ w.
     if openssh then
       (case openssh_passphrase of
          None \<Rightarrow> (Inl (InvalidFormat ''missing OpenSSH passphrase''), w)
        | Some passphrase \<Rightarrow>
            and_then (write_openssh_private_key P (openssh_path priv) i passphrase comment force w) (\<lambda>_ w.
            let auth_line = ssh_authorized_keys_line P i comment
            in and_then (map_err Io (fs_write (openssh_pub_path priv)
                 (str_bytes (auth_line @ [CHR 0x0A])) w)) (\<lambda>_ w.
               (Inr (), w))))
     else (Inr (), w)))"

section \<open>Generating and deriving\<close>

text \<open>The PEM encoders' \<open>unwrap\<close> panics on an error.\<close>

datatype failure = Failed cry_error | Panics

definition unwrap :: "'x + 'a \<Rightarrow> failure + 'a" where
  "unwrap r = (case r of Inl e \<Rightarrow> Inl Panics | Inr x \<Rightarrow> Inr x)"

definition keygen ::
  "crypto \<Rightarrow> keygen_args \<Rightarrow> bytes option \<Rightarrow> world \<Rightarrow> (failure + unit) \<times> world" where
  "keygen P args openssh_passphrase w =
    (let (priv, pub_opt) = names (kg_output args) (kg_algo args); force = kg_force args
     in case kg_algo args of
          Ed25519 \<Rightarrow>
            let pub = the pub_opt
            in map_err Failed (
               and_then (ensure_outputs_writable priv pub (kg_openssh args) force w) (\<lambda>_ w.
               let (sk, w) = fill_bytes 32 w;
                   i = \<lparr>signing_key = sk\<rparr>
               in write_identity_files P priv pub i (kg_openssh args) openssh_passphrase
                    (kg_comment args) force w))
        | AesKey \<Rightarrow>
            map_err Failed (
            and_then (ensure_writable priv force w) (\<lambda>_ w.
            let (key, w) = fill_bytes 32 w
            in write_private_key P priv key force w))
        | Rsa \<Rightarrow>
            let pub = the pub_opt
            in and_then (map_err Failed (ensure_writable priv force w)) (\<lambda>_ w.
               and_then (map_err Failed (ensure_writable pub force w)) (\<lambda>_ w.
               and_then (map_err (\<lambda>e. Failed (InvalidFormat (''RSA generation failed: '' @ e)))
                 (rsa_generate P (\<lambda>n. entropy w (drawn w + n)) (kg_bits args), w)) (\<lambda>private w.
               and_then (unwrap (rsa_private_pem P private), w) (\<lambda>pem w.
               and_then (map_err (Failed \<circ> Io) (fs_write priv (str_bytes pem) w)) (\<lambda>_ w.
               and_then (unwrap (rsa_public_pem P private), w) (\<lambda>pem w.
               and_then (map_err (Failed \<circ> Io) (fs_write pub (str_bytes pem) w)) (\<lambda>_ w.
               (Inr (), w)))))))))"

definition aes_salt_input :: "string \<Rightarrow> u32 \<Rightarrow> string option \<Rightarrow> string" where
  "aes_salt_input namespace key_version sub_id =
     ''cry:derive:aes256gcm|ns='' @ namespace @ ''|ver='' @ show_nat (unat key_version) @
     ''|sub='' @ (case sub_id of None \<Rightarrow> [] | Some s \<Rightarrow> s)"

definition derive_aes_key ::
  "crypto \<Rightarrow> derive_args \<Rightarrow> bytes \<Rightarrow> failure + bytes" where
  "derive_aes_key P args passphrase =
    (let salt = sha256 P (str_bytes (aes_salt_input (da_namespace args) (da_key_version args)
           (da_sub_id args)))
     in case unwrap (params_new P 65536 3 1 (Some 32)) of
          Inl f \<Rightarrow> Inl f
        | Inr params \<Rightarrow>
            (case hash_password_into P params passphrase salt 32 of
               Inl e \<Rightarrow> Inl (Failed (Kdf e))
             | Inr okm \<Rightarrow> Inr okm))"

definition derive ::
  "crypto \<Rightarrow> derive_args \<Rightarrow> bytes \<Rightarrow> bytes option \<Rightarrow> world \<Rightarrow> (failure + unit) \<times> world" where
  "derive P args passphrase openssh_passphrase w =
    (let (priv, pub_opt) = names (da_output args) (da_algo args); force = da_force args
     in case da_algo args of
          Ed25519 \<Rightarrow>
            let pub = the pub_opt
            in map_err Failed (
               and_then (ensure_outputs_writable priv pub (da_openssh args) force w) (\<lambda>_ w.
               and_then (identity_derive P passphrase (da_namespace args) (da_key_version args)
                 (da_sub_id args), w) (\<lambda>i w.
               write_identity_files P priv pub i (da_openssh args) openssh_passphrase
                 (da_comment args) force w)))
        | AesKey \<Rightarrow>
            and_then (map_err Failed (ensure_writable priv force w)) (\<lambda>_ w.
            and_then (derive_aes_key P args passphrase, w) (\<lambda>okm w.
            map_err Failed (write_private_key P priv okm force w)))
        | Rsa \<Rightarrow>
            (Inl (Failed (InvalidFormat ''Deterministic RSA derivation is intentionally disabled'')), w))"

section \<open>Which files are outputs\<close>

definition identity_outputs :: "string \<Rightarrow> bool \<Rightarrow> string set" where
  "identity_outputs base openssh =
     {base @ ''.cry_id'', base @ ''.cry_pub_id''} \<union>
     (if openssh then {base @ ''.cry_id.openssh_id'', base @ ''.cry_id.openssh_pub''} else {})"

definition key_outputs :: "string \<Rightarrow> key_algorithm \<Rightarrow> bool \<Rightarrow> string set" where
  "key_outputs base algo openssh =
    (case algo of
       Ed25519 \<Rightarrow> identity_outputs base openssh
     | Rsa \<Rightarrow> identity_outputs base False
     | AesKey \<Rightarrow> {base @ ''.cry_id''})"

lemma touches_write_private_key [frame]:
  "entry p \<subseteq> S \<Longrightarrow> touches S w (snd (write_private_key P p bs force w))"
  unfolding write_private_key_def by (intro touches_and_then) (simp_all add: frame)

lemma touches_write_public_key [frame]:
  "entry p \<subseteq> S \<Longrightarrow> touches S w (snd (write_public_key P p bs force w))"
  unfolding write_public_key_def by (intro touches_and_then) (simp_all add: frame)

lemma touches_write_openssh_private_key [frame]:
  "entry p \<subseteq> S \<Longrightarrow> touches S w (snd (write_openssh_private_key P p i pass comment force w))"
proof -
  assume p: "entry p \<subseteq> S"
  have "touches S v (snd (if \<not> valid_utf8 pass
      then (Inl (InvalidFormat ''OpenSSH passphrase must be valid UTF-8''), v) else
      and_then (openssh_private_key P (thread_entropy v) i (text_of pass) comment, v) (\<lambda>pem w.
      and_then (map_err Io (fs_write p (str_bytes pem) w)) (\<lambda>_ w. (Inr (), w)))))" for v
    by (cases "valid_utf8 pass") (simp, intro touches_and_then, simp_all add: frame p)
  then show ?thesis
    unfolding write_openssh_private_key_def by (intro touches_and_then) (simp_all add: frame)
qed

lemma touches_ensure_outputs_writable [frame]:
  "touches S w (snd (ensure_outputs_writable priv pub openssh force w))"
  unfolding ensure_outputs_writable_def
  by (cases openssh) (simp_all, (intro touches_and_then; simp add: frame)+)

lemma touches_write_identity_files [frame]:
  assumes "priv \<in> S" "pub \<in> S" "openssh \<Longrightarrow> openssh_path priv \<in> S" "openssh \<Longrightarrow> openssh_pub_path priv \<in> S"
  shows "touches S w (snd (write_identity_files P priv pub i openssh pass comment force w))"
  unfolding write_identity_files_def Let_def
  using assms
  by (cases openssh; cases pass) (intro touches_and_then; simp add: frame)+

text \<open>The four behaviours that write files.\<close>

lemma keygen_Ed25519:
  "kg_algo args = Ed25519 \<Longrightarrow> keygen P args pass w = map_err Failed (
     and_then (ensure_outputs_writable (kg_output args @ ''.cry_id'') (kg_output args @ ''.cry_pub_id'')
       (kg_openssh args) (kg_force args) w) (\<lambda>_ w.
     write_identity_files P (kg_output args @ ''.cry_id'') (kg_output args @ ''.cry_pub_id'')
       \<lparr>signing_key = fst (fill_bytes 32 w)\<rparr> (kg_openssh args) pass (kg_comment args) (kg_force args)
       (snd (fill_bytes 32 w))))"
  by (simp add: keygen_def names_def Let_def split_beta)

lemma keygen_AesKey:
  "kg_algo args = AesKey \<Longrightarrow> keygen P args pass w = map_err Failed (
     and_then (ensure_writable (kg_output args @ ''.cry_id'') (kg_force args) w) (\<lambda>_ w.
     write_private_key P (kg_output args @ ''.cry_id'') (fst (fill_bytes 32 w)) (kg_force args)
       (snd (fill_bytes 32 w))))"
  by (simp add: keygen_def names_def Let_def split_beta)

lemma derive_Ed25519:
  "da_algo args = Ed25519 \<Longrightarrow> derive P args passphrase pass w = map_err Failed (
     and_then (ensure_outputs_writable (da_output args @ ''.cry_id'') (da_output args @ ''.cry_pub_id'')
       (da_openssh args) (da_force args) w) (\<lambda>_ w.
     and_then (identity_derive P passphrase (da_namespace args) (da_key_version args)
       (da_sub_id args), w) (\<lambda>i w.
     write_identity_files P (da_output args @ ''.cry_id'') (da_output args @ ''.cry_pub_id'')
       i (da_openssh args) pass (da_comment args) (da_force args) w)))"
  by (simp add: derive_def names_def Let_def split_beta)

lemma key_output_members [simp]:
  "b @ ''.cry_id'' \<in> identity_outputs b s" "b @ ''.cry_pub_id'' \<in> identity_outputs b s"
  "s \<Longrightarrow> openssh_path (b @ ''.cry_id'') \<in> identity_outputs b s"
  "s \<Longrightarrow> openssh_pub_path (b @ ''.cry_id'') \<in> identity_outputs b s"
  by (simp_all add: identity_outputs_def openssh_path_def openssh_pub_path_def)

lemma keygen_touches:
  "touches (key_outputs (kg_output args) (kg_algo args) (kg_openssh args)) w (snd (keygen P args pass w))"
proof (cases "kg_algo args")
  case Ed25519
  show ?thesis
    unfolding keygen_Ed25519 [OF Ed25519] map_err_state
    by (rule touches_and_then, simp add: frame, rule touches_trans [OF touches_fill_bytes [where n = 32]])
      (simp add: frame key_outputs_def Ed25519)
next
  case Rsa
  then show ?thesis
    by (simp add: keygen_def names_def key_outputs_def Let_def)
      (intro touches_and_then; simp add: frame entry_subset)
next
  case AesKey
  show ?thesis
    unfolding keygen_AesKey [OF AesKey] map_err_state
    by (rule touches_and_then, simp add: frame, rule touches_trans [OF touches_fill_bytes [where n = 32]])
      (simp add: frame key_outputs_def AesKey)
qed

lemma derive_touches:
  "touches (key_outputs (da_output args) (da_algo args) (da_openssh args)) w
     (snd (derive P args passphrase pass w))"
proof (cases "da_algo args")
  case Ed25519
  show ?thesis
    unfolding derive_Ed25519 [OF Ed25519] map_err_state
    by (intro touches_and_then) (simp_all add: frame key_outputs_def Ed25519)
next
  case Rsa
  then show ?thesis by (simp add: derive_def names_def)
next
  case AesKey
  then show ?thesis
    by (simp add: derive_def names_def key_outputs_def Let_def)
      (intro touches_and_then; simp add: frame entry_subset)
qed

section \<open>Refusals\<close>

text \<open>No system call fails; writes may still stop anywhere.\<close>

definition steady :: "world \<Rightarrow> bool" where
  "steady w \<longleftrightarrow> faults w = []"

lemma steady_ensure_writable [simp]:
  "steady w \<Longrightarrow> ensure_writable p force w =
     (if files w p \<noteq> None \<and> \<not> force then (Inl (FileExists p), w) else (Inr (), w))"
  by (simp add: steady_def ensure_writable_def path_exists_def syscall_def)

text \<open>
  The contract of a command that writes several files: it writes no other ones, and without
  permission to overwrite it refuses, before the first write, when any of them exists.
\<close>

locale guarded_outputs =
  fixes op :: "'a \<Rightarrow> world \<Rightarrow> ('e + unit) \<times> world"
    and outs :: "'a \<Rightarrow> string set"
    and forced :: "'a \<Rightarrow> bool"
  assumes op_frame: "touches (outs a) w (snd (op a w))"
    and op_refuses: "\<not> forced a \<Longrightarrow> steady w \<Longrightarrow> q \<in> outs a \<Longrightarrow> files w q \<noteq> None \<Longrightarrow>
      (\<exists>e. fst (op a w) = Inl e) \<and> files (snd (op a w)) = files w"
begin

lemma only_outputs: "q \<notin> outs a \<Longrightarrow> files (snd (op a w)) q = files w q"
  by (rule touches_files [OF op_frame])

lemma existing_kept:
  assumes "\<not> forced a" "steady w" "files w q = Some e"
  shows "files (snd (op a w)) q = Some e"
proof (cases "q \<in> outs a")
  case True
  with op_refuses [OF assms(1,2) True] assms(3) show ?thesis by simp
next
  case False
  with only_outputs assms(3) show ?thesis by simp
qed

lemma all_or_nothing:
  "\<not> forced a \<Longrightarrow> steady w \<Longrightarrow> op a w = (Inr (), w') \<Longrightarrow> q \<in> outs a \<Longrightarrow> files w q = None"
  using op_refuses [of a w q] by fastforce

end

lemma ensure_outputs_refuses:
  assumes "steady w" "q \<in> identity_outputs b s" "files w q \<noteq> None"
  shows "\<exists>p \<in> identity_outputs b s. files w p \<noteq> None \<and>
    ensure_outputs_writable (b @ ''.cry_id'') (b @ ''.cry_pub_id'') s False w = (Inl (FileExists p), w)"
  using assms
  by (auto simp: ensure_outputs_writable_def identity_outputs_def openssh_path_def
      openssh_pub_path_def split: if_splits)

lemma keygen_refuses:
  assumes "\<not> kg_force args" "steady w"
    and "q \<in> key_outputs (kg_output args) (kg_algo args) (kg_openssh args)" "files w q \<noteq> None"
  shows "\<exists>p \<in> key_outputs (kg_output args) (kg_algo args) (kg_openssh args). files w p \<noteq> None \<and>
    keygen P args pass w = (Inl (Failed (FileExists p)), w)"
proof (cases "kg_algo args")
  case Ed25519
  then show ?thesis
    using ensure_outputs_refuses [OF assms(2), of q "kg_output args" "kg_openssh args"] assms
    by (auto simp: keygen_Ed25519 key_outputs_def)
next
  case Rsa
  then show ?thesis
    using assms by (auto simp: keygen_def names_def key_outputs_def identity_outputs_def)
next
  case AesKey
  then show ?thesis using assms by (auto simp: keygen_AesKey key_outputs_def)
qed

lemma derive_refuses:
  assumes "\<not> da_force args" "steady w"
    and "q \<in> key_outputs (da_output args) (da_algo args) (da_openssh args)" "files w q \<noteq> None"
  shows "\<exists>e. derive P args passphrase pass w = (Inl e, w) \<and>
    (da_algo args \<noteq> Rsa \<longrightarrow> (\<exists>p \<in> key_outputs (da_output args) (da_algo args) (da_openssh args).
       files w p \<noteq> None \<and> e = Failed (FileExists p)))"
proof (cases "da_algo args")
  case Ed25519
  then show ?thesis
    using ensure_outputs_refuses [OF assms(2), of q "da_output args" "da_openssh args"] assms
    by (auto simp: derive_Ed25519 key_outputs_def)
next
  case Rsa
  then show ?thesis by (simp add: derive_def names_def)
next
  case AesKey
  then show ?thesis using assms by (auto simp: derive_def names_def key_outputs_def)
qed

interpretation kg: guarded_outputs "\<lambda>(P, args, pass). keygen P args pass"
  "\<lambda>(P, args, pass). key_outputs (kg_output args) (kg_algo args) (kg_openssh args)"
  "\<lambda>(P, args, pass). kg_force args"
proof (unfold_locales, goal_cases)
  case (1 a w)
  then show ?case by (cases a) (simp add: keygen_touches)
next
  case (2 a w q)
  obtain P args pass where a: "a = (P, args, pass)" by (cases a)
  from 2 keygen_refuses [of args w q P pass] show ?case by (auto simp: a)
qed

interpretation dv: guarded_outputs "\<lambda>(P, args, passphrase, pass). derive P args passphrase pass"
  "\<lambda>(P, args, passphrase, pass). key_outputs (da_output args) (da_algo args) (da_openssh args)"
  "\<lambda>(P, args, passphrase, pass). da_force args"
proof (unfold_locales, goal_cases)
  case (1 a w)
  then show ?case by (cases a) (simp add: derive_touches)
next
  case (2 a w q)
  obtain P args passphrase pass where a: "a = (P, args, passphrase, pass)" by (cases a)
  from 2 derive_refuses [of args w q P passphrase pass] show ?case by (auto simp: a)
qed

section \<open>What a success leaves\<close>

lemma write_public_key_Inr:
  "write_public_key P p bs force w = (Inr u, w') \<Longrightarrow>
     \<exists>e. files w' p = Some e \<and> contents e = str_bytes (hex_encode P bs)"
  by (auto simp: write_public_key_def result_iffs dest!: fs_write_Inr)

lemma write_identity_files_Inr:
  assumes "write_identity_files P (b @ ''.cry_id'') (b @ ''.cry_pub_id'') i openssh pass comment force w
      = (Inr (), w')"
  shows "\<exists>e. files w' (b @ ''.cry_id'') = Some e \<and>
      contents e = str_bytes (bytes_to_hex (signing_key i)) \<and> mode e = 384"
    and "\<exists>e. files w' (b @ ''.cry_pub_id'') = Some e \<and>
      contents e = str_bytes (hex_encode P (verifying_key P i))"
proof -
  let ?priv = "b @ ''.cry_id''" and ?pub = "b @ ''.cry_pub_id''"
  obtain u w1 w2 where w1: "write_private_key_hex_file i ?priv force w = (Inr (), w1)"
    and w2: "write_public_key P ?pub (verifying_key P i) force w1 = (Inr u, w2)"
    using assms by (auto simp: write_identity_files_def and_then_Inr_iff)
  from w1 w2 assms have rest: "(if openssh then
       (case pass of
          None \<Rightarrow> (Inl (InvalidFormat ''missing OpenSSH passphrase''), w2)
        | Some passphrase \<Rightarrow>
            and_then (write_openssh_private_key P (openssh_path ?priv) i passphrase comment force w2) (\<lambda>_ w.
            let auth_line = ssh_authorized_keys_line P i comment
            in and_then (map_err Io (fs_write (openssh_pub_path ?priv)
                 (str_bytes (auth_line @ [CHR 0x0A])) w)) (\<lambda>_ w.
               (Inr (), w))))
     else (Inr (), w2)) = (Inr (), w')" (is "?m = _")
    by (simp add: write_identity_files_def)
  have "touches {openssh_path ?priv, openssh_pub_path ?priv} w2 (snd ?m)"
    unfolding Let_def by (cases openssh; cases pass) (simp_all, (intro touches_and_then; simp add: frame)+)
  with rest have t: "touches {openssh_path ?priv, openssh_pub_path ?priv} w2 w'" by simp
  have "touches {?pub} w1 w2"
    by (rule touches_result [OF w2]) (simp add: frame)
  then have priv: "files w' ?priv = files w1 ?priv"
    using touches_files [OF t, of ?priv] touches_files [of "{?pub}" w1 w2 ?priv]
    by (simp add: openssh_path_def openssh_pub_path_def)
  have pub: "files w' ?pub = files w2 ?pub"
    using touches_files [OF t, of ?pub] by (simp add: openssh_path_def openssh_pub_path_def)
  show "\<exists>e. files w' ?priv = Some e \<and> contents e = str_bytes (bytes_to_hex (signing_key i)) \<and> mode e = 384"
    using write_private_key_hex_file_Inr [OF w1] priv by simp
  show "\<exists>e. files w' ?pub = Some e \<and> contents e = str_bytes (hex_encode P (verifying_key P i))"
    using write_public_key_Inr [OF w2] pub by simp
qed

section \<open>Properties\<close>

definition sample_keygen_args :: "key_algorithm \<Rightarrow> keygen_args" where
  "sample_keygen_args algo = \<lparr>kg_algo = algo, kg_bits = 3072, kg_output = ''k'', kg_sub_id = None,
     kg_force = False, kg_openssh = False, kg_comment = ''CryDNA''\<rparr>"

definition sample_derive_args :: derive_args where
  "sample_derive_args = \<lparr>da_algo = Ed25519, da_bits = 3072, da_passphrase = None,
     da_namespace = ''default'', da_key_version = 0, da_output = ''k'', da_sub_id = None,
     da_force = False, da_openssh = False, da_comment = ''CryDNA''\<rparr>"

lemma sample_steady [simp]: "steady (sample_world fs)"
  by (simp add: steady_def sample_world_def)

lemma key_names: "file_name ''k.cry_id'' = Some ''k.cry_id''" "file_name ''k.cry_pub_id'' = Some ''k.cry_pub_id''"
  by code_simp+

text \<open>C24. Without \<open>--force\<close> neither key command harms an existing file: when the system
  calls work, whatever the writes do, every file that existed is still there with its contents and
  mode; if any of the outputs existed, both commands report one that does with
  \<open>FileExists\<close> and have changed nothing, nor drawn a random byte (\<open>derive --algo rsa\<close> is
  refused in any case); so a success means that none did.\<close>

theorem key_commands_keep_existing_files:
  assumes "steady w" and "files w q = Some e"
  shows "(\<not> kg_force a \<longrightarrow> files (snd (keygen P a pass w)) q = Some e) \<and>
    (\<not> da_force d \<longrightarrow> files (snd (derive P d pw pass w)) q = Some e) \<and>
    (\<not> kg_force a \<and> q \<in> key_outputs (kg_output a) (kg_algo a) (kg_openssh a) \<longrightarrow>
       (\<exists>p \<in> key_outputs (kg_output a) (kg_algo a) (kg_openssh a). files w p \<noteq> None \<and>
          keygen P a pass w = (Inl (Failed (FileExists p)), w))) \<and>
    (\<not> da_force d \<and> q \<in> key_outputs (da_output d) (da_algo d) (da_openssh d) \<longrightarrow>
       (\<exists>f. derive P d pw pass w = (Inl f, w) \<and>
          (da_algo d \<noteq> Rsa \<longrightarrow> (\<exists>p \<in> key_outputs (da_output d) (da_algo d) (da_openssh d).
             files w p \<noteq> None \<and> f = Failed (FileExists p)))))"
proof (intro conjI impI)
  show "files (snd (keygen P a pass w)) q = Some e" if "\<not> kg_force a"
    using kg.existing_kept [of "(P, a, pass)" w q e] that assms by simp
  show "files (snd (derive P d pw pass w)) q = Some e" if "\<not> da_force d"
    using dv.existing_kept [of "(P, d, pw, pass)" w q e] that assms by simp
next
  assume "\<not> kg_force a \<and> q \<in> key_outputs (kg_output a) (kg_algo a) (kg_openssh a)"
  then show "\<exists>p \<in> key_outputs (kg_output a) (kg_algo a) (kg_openssh a). files w p \<noteq> None \<and>
      keygen P a pass w = (Inl (Failed (FileExists p)), w)"
    using assms by (intro keygen_refuses) auto
next
  assume "\<not> da_force d \<and> q \<in> key_outputs (da_output d) (da_algo d) (da_openssh d)"
  then show "\<exists>f. derive P d pw pass w = (Inl f, w) \<and>
      (da_algo d \<noteq> Rsa \<longrightarrow> (\<exists>p \<in> key_outputs (da_output d) (da_algo d) (da_openssh d).
         files w p \<noteq> None \<and> f = Failed (FileExists p)))"
    using assms by (intro derive_refuses) auto
qed

theorem key_commands_keep_existing_files_witness:
  "keygen demo_crypto (sample_keygen_args Ed25519) None (sample_world [(''k.cry_pub_id'', [1])]) =
     (Inl (Failed (FileExists ''k.cry_pub_id'')), sample_world [(''k.cry_pub_id'', [1])]) \<and>
   derive demo_crypto sample_derive_args [7] None (sample_world [(''k.cry_pub_id'', [1])]) =
     (Inl (Failed (FileExists ''k.cry_pub_id'')), sample_world [(''k.cry_pub_id'', [1])])"
proof -
  let ?w = "sample_world [(''k.cry_pub_id'', [1])]"
  have "files ?w ''k.cry_pub_id'' = Some \<lparr>contents = [1], mode = 420\<rparr>" by (simp add: sample_files)
  from key_commands_keep_existing_files [OF sample_steady this, of "sample_keygen_args Ed25519"
      demo_crypto None sample_derive_args "[7]"]
  show ?thesis
    by (auto simp: sample_keygen_args_def sample_derive_args_def key_outputs_def identity_outputs_def sample_files)
qed

text \<open>C25. Deterministic derivation: for every world and every script of failures, when two runs of
  \<open>derive\<close> for Ed25519 with the same passphrase, namespace, version and sub-identity
  succeed, on any machines and to any outputs, both private key files have mode 0600 and hold the
  same hexadecimal seed, that of the identity, and the public key files hold its public key.\<close>

theorem derive_is_deterministic:
  assumes "da_algo d1 = Ed25519" and "da_algo d2 = Ed25519"
    and "da_namespace d1 = da_namespace d2" and "da_key_version d1 = da_key_version d2"
    and "da_sub_id d1 = da_sub_id d2"
    and "derive P d1 pw pass1 v = (Inr (), v')" and "derive P d2 pw pass2 w = (Inr (), w')"
  shows "\<exists>i e1 e2 p1 p2.
    identity_derive P pw (da_namespace d1) (da_key_version d1) (da_sub_id d1) = Inr i \<and>
    files v' (da_output d1 @ ''.cry_id'') = Some e1 \<and> files w' (da_output d2 @ ''.cry_id'') = Some e2 \<and>
    contents e1 = str_bytes (bytes_to_hex (signing_key i)) \<and> contents e2 = contents e1 \<and>
    mode e1 = 384 \<and> mode e2 = 384 \<and>
    files v' (da_output d1 @ ''.cry_pub_id'') = Some p1 \<and>
    files w' (da_output d2 @ ''.cry_pub_id'') = Some p2 \<and>
    contents p1 = str_bytes (hex_encode P (verifying_key P i)) \<and> contents p2 = contents p1"
proof -
  obtain i s where i: "identity_derive P pw (da_namespace d1) (da_key_version d1) (da_sub_id d1) = Inr i"
    and run1: "write_identity_files P (da_output d1 @ ''.cry_id'') (da_output d1 @ ''.cry_pub_id'') i
      (da_openssh d1) pass1 (da_comment d1) (da_force d1) s = (Inr (), v')"
    using assms(6) by (auto simp: derive_Ed25519 [OF assms(1)] result_iffs)
  obtain t where run2: "write_identity_files P (da_output d2 @ ''.cry_id'') (da_output d2 @ ''.cry_pub_id'') i
      (da_openssh d2) pass2 (da_comment d2) (da_force d2) t = (Inr (), w')"
    using assms(3-5,7) i by (auto simp: derive_Ed25519 [OF assms(2)] result_iffs)
  from write_identity_files_Inr [OF run1] write_identity_files_Inr [OF run2] i show ?thesis by auto
qed

theorem derive_is_deterministic_witness:
  "\<exists>w' e. derive demo_crypto sample_derive_args [7] None (sample_world []) = (Inr (), w') \<and>
     files w' ''k.cry_id'' = Some e \<and> mode e = 384"
proof -
  obtain i where i: "identity_derive demo_crypto [7] ''default'' 0 None = Inr i"
    by (simp add: identity_derive_def demo_crypto_def)
  have algo: "da_algo sample_derive_args = Ed25519" by (simp add: sample_derive_args_def)
  obtain w' where run: "derive demo_crypto sample_derive_args [7] None (sample_world []) = (Inr (), w')"
    using i by (simp add: derive_Ed25519 [OF algo])
      (simp add: sample_derive_args_def ensure_outputs_writable_def write_identity_files_def
        write_private_key_hex_file_def write_public_key_def key_names sample_files)
  from derive_is_deterministic [OF algo algo refl refl refl run run] run show ?thesis
    by (auto simp: sample_derive_args_def)
qed

text \<open>The derived AES key does not see every parameter: an absent sub-identity and an empty one
  give one key, and the separator is not escaped, so that a sub-identity that contains
  \<open>|ver=\<close> and \<open>|sub=\<close> gives the key of another namespace and version.\<close>

lemma aes_derivation_collisions:
  "derive_aes_key P (d\<lparr>da_sub_id := None\<rparr>) pw = derive_aes_key P (d\<lparr>da_sub_id := Some []\<rparr>) pw \<and>
   derive_aes_key P (d\<lparr>da_namespace := ns, da_key_version := v,
       da_sub_id := Some (s @ ''|ver='' @ show_nat (unat v2) @ ''|sub='' @ t)\<rparr>) pw =
   derive_aes_key P (d\<lparr>da_namespace := ns @ ''|ver='' @ show_nat (unat v) @ ''|sub='' @ s,
       da_key_version := v2, da_sub_id := Some t\<rparr>) pw"
  by (simp add: derive_aes_key_def aes_salt_input_def)

text \<open>The raw AES key is written with the default mode: after a successful \<open>keygen\<close> to a
  new file, whatever failed on the way, the key file has the mode of any created file, while an
  Ed25519 key file is restricted to its owner.\<close>

lemma aes_key_file_has_default_mode:
  assumes "kg_algo args = AesKey" and "keygen P args pass w = (Inr (), w')"
    and "files w (kg_output args @ ''.cry_id'') = None"
  shows "\<exists>e key. files w' (kg_output args @ ''.cry_id'') = Some e \<and> mode e = create_mode w \<and>
    length key = 32 \<and> contents e = str_bytes (hex_encode P key)"
proof -
  let ?p = "kg_output args @ ''.cry_id''"
  obtain u s where s: "ensure_writable ?p (kg_force args) w = (Inr u, s)"
    and run: "write_private_key P ?p (fst (fill_bytes 32 s)) (kg_force args) (snd (fill_bytes 32 s)) = (Inr (), w')"
    using assms(2) by (auto simp: keygen_AesKey [OF assms(1)] result_iffs)
  obtain v t where t: "ensure_writable ?p (kg_force args) (snd (fill_bytes 32 s)) = (Inr v, t)"
    and wr: "fs_write ?p (str_bytes (hex_encode P (fst (fill_bytes 32 s)))) t = (Inr (), w')"
    using run by (auto simp: write_private_key_def result_iffs)
  have "touches {} w s" by (rule touches_result [OF s]) (simp add: frame)
  then have "touches {} w (snd (fill_bytes 32 s))" by (rule touches_trans [OF _ touches_fill_bytes])
  moreover have "touches {} (snd (fill_bytes 32 s)) t" by (rule touches_result [OF t]) (simp add: frame)
  ultimately have "touches {} w t" by (rule touches_trans)
  then have "files t ?p = None" "create_mode t = create_mode w" using assms(3) by (auto simp: touches_def)
  with fs_write_Inr [OF wr] show ?thesis
    by (auto intro!: exI [of _ "fst (fill_bytes 32 s)"])
qed

end
