(* ===== verification/Cry_Bench.thy ===== *)
theory Cry_Bench
  imports Complex_Main "HOL-Library.Multiset" Cry_World Cry_Chunks
begin

text \<open>
  The benchmark, \<open>src/bench.rs\<close>: its loops, the panics of its arithmetic, and the order
  statistics it reports. Times and rates are exact rationals: for the index of a percentile the
  rounding of the 64-bit product makes no difference, as an exact product is either a tie, which
  is representable, or at least a twentieth away from one. Sizes and counts wrap as in a release
  build.
\<close>

section \<open>Order statistics\<close>

text \<open>\<open>f64::round\<close> on a non-negative number: half away from zero.\<close>

definition round_half_up :: "rat \<Rightarrow> nat" where
  "round_half_up x = nat (floor (x + 1 / 2))"

text \<open>Indexing out of range panics; on an empty slice \<open>len() - 1\<close> wraps, which is out of
  range as well.\<close>

definition percentile :: "rat list \<Rightarrow> rat \<Rightarrow> rat outcome" where
  "percentile xs q =
    (if xs = [] then Panicked
     else let idx = round_half_up (of_nat (length xs - 1) * q)
          in if idx < length xs then Returned (xs ! idx) else Panicked)"

record stats =
  median :: rat
  p95 :: rat

definition stats_from :: "rat list \<Rightarrow> stats outcome" where
  "stats_from values =
    (let sorted = sort values
     in case percentile sorted (1 / 2) of
          Panicked \<Rightarrow> Panicked
        | Returned m \<Rightarrow>
            (case percentile sorted (95 / 100) of
               Panicked \<Rightarrow> Panicked
             | Returned p \<Rightarrow> Returned \<lparr>median = m, p95 = p\<rparr>))"

lemma round_half_up_mono: "x \<le> y \<Longrightarrow> round_half_up x \<le> round_half_up y"
  by (simp add: round_half_up_def floor_mono nat_mono)

lemma round_half_up_of_nat [simp]: "round_half_up (of_nat n) = n"
proof -
  have "floor (1 / 2 :: rat) = 0" by (rule floor_unique) simp_all
  then show ?thesis by (simp add: round_half_up_def)
qed

lemma percentile_index:
  assumes "0 \<le> q" "q \<le> 1" "xs \<noteq> []"
  shows "round_half_up (of_nat (length xs - 1) * q) < length xs"
proof -
  have "of_nat (length xs - 1) * q \<le> of_nat (length xs - 1)"
    using assms(1,2) by (simp add: mult_left_le)
  then have "round_half_up (of_nat (length xs - 1) * q) \<le> length xs - 1"
    using round_half_up_mono round_half_up_of_nat by metis
  with assms(3) show ?thesis by (cases xs) auto
qed

lemma percentile_Returned:
  "0 \<le> q \<Longrightarrow> q \<le> 1 \<Longrightarrow> xs \<noteq> [] \<Longrightarrow>
     percentile xs q = Returned (xs ! round_half_up (of_nat (length xs - 1) * q))"
  by (simp add: percentile_def percentile_index Let_def del: One_nat_def)

section \<open>Timed runs\<close>

text \<open>
  A clock gives each reading; \<open>elapsed\<close> saturates at zero. The state of a benchmark is the
  world and the number of readings taken.
\<close>

type_synonym clock = "nat \<Rightarrow> rat"

record bench_args =
  size_mib :: nat
  samples :: u32
  warmup :: u32
  kdf_runs :: u32

definition elapsed :: "clock \<Rightarrow> nat \<Rightarrow> nat \<Rightarrow> rat" where
  "elapsed clock t1 t2 = max 0 (clock t2 - clock t1)"

fun kdf_loop :: "crypto \<Rightarrow> bytes \<Rightarrow> bytes \<Rightarrow> nat \<Rightarrow> cry_error + unit" where
  "kdf_loop P passphrase salt 0 = Inr ()"
| "kdf_loop P passphrase salt (Suc n) =
     (case derive_key P passphrase salt of
        Inl e \<Rightarrow> Inl e
      | Inr key \<Rightarrow> kdf_loop P passphrase salt n)"

definition benchmark_kdf ::
  "crypto \<Rightarrow> clock \<Rightarrow> bytes \<Rightarrow> bytes \<Rightarrow> u32 \<Rightarrow> nat \<Rightarrow> (cry_error + rat) \<times> nat" where
  "benchmark_kdf P clock passphrase salt runs t =
    (case kdf_loop P passphrase salt (unat runs) of
       Inl e \<Rightarrow> (Inl e, t + 1)
     | Inr _ \<Rightarrow> (Inr (elapsed clock t (t + 1) * 1000 / of_nat (unat runs)), t + 2))"

text \<open>\<open>expect\<close> panics when a cipher fails.\<close>

definition single_run ::
  "crypto \<Rightarrow> clock \<Rightarrow> algorithm \<Rightarrow> bytes \<Rightarrow> bytes \<Rightarrow> bytes \<Rightarrow> bytes \<Rightarrow> nat \<Rightarrow> (rat \<times> rat) outcome \<times> nat" where
  "single_run P clock algo plain key nonce aad t =
    (case (case algo of
             Aes256Gcm \<Rightarrow> aes256gcm_encrypt P key nonce plain aad
           | ChaCha20Poly1305 \<Rightarrow> chacha20poly1305_encrypt P key nonce plain aad) of
       None \<Rightarrow> (Panicked, t + 1)
     | Some ciphertext \<Rightarrow>
         let enc_secs = elapsed clock t (t + 1)
         in (case (case algo of
                     Aes256Gcm \<Rightarrow> aes256gcm_decrypt P key nonce ciphertext aad
                   | ChaCha20Poly1305 \<Rightarrow> chacha20poly1305_decrypt P key nonce ciphertext aad) of
               None \<Rightarrow> (Panicked, t + 3)
             | Some m \<Rightarrow>
                 let dec_secs = elapsed clock (t + 2) (t + 3);
                     mib = of_nat (length plain) / (1024 * 1024)
                 in (Returned (mib / max enc_secs (1 / 10 ^ 9), mib / max dec_secs (1 / 10 ^ 9)), t + 4)))"

text \<open>The loop over \<open>i\<close> with \<open>n\<close> rounds to go; rounds below \<open>warmup\<close> are
  not recorded.\<close>

fun bench_loop ::
  "(nat \<Rightarrow> (rat \<times> rat) outcome \<times> nat) \<Rightarrow> nat \<Rightarrow> nat \<Rightarrow> nat \<Rightarrow> nat \<Rightarrow> (rat list \<times> rat list) outcome \<times> nat" where
  "bench_loop run warm i 0 t = (Returned ([], []), t)"
| "bench_loop run warm i (Suc n) t =
     (case run t of
        (Panicked, t) \<Rightarrow> (Panicked, t)
      | (Returned (enc, dec), t) \<Rightarrow>
          (case bench_loop run warm (Suc i) n t of
             (Panicked, t) \<Rightarrow> (Panicked, t)
           | (Returned (encs, decs), t) \<Rightarrow>
               (Returned (if warm \<le> i then (enc # encs, dec # decs) else (encs, decs)), t)))"

definition benchmark_algorithm ::
  "crypto \<Rightarrow> clock \<Rightarrow> algorithm \<Rightarrow> bytes \<Rightarrow> bytes \<Rightarrow> u32 \<Rightarrow> u32 \<Rightarrow> world \<times> nat \<Rightarrow>
     (stats \<times> stats) outcome \<times> world \<times> nat" where
  "benchmark_algorithm P clock algo plain key warm samps s =
    (let (base_nonce, w) = fill_bytes 12 (fst s);
         aad = sha256 P (str_bytes ''cry-bench-aad'');
         (rates, t) = bench_loop (single_run P clock algo plain key base_nonce aad) (unat warm) 0
           (unat (warm + samps)) (snd s)
     in (case rates of
           Panicked \<Rightarrow> (Panicked, w, t)
         | Returned (enc_rates, dec_rates) \<Rightarrow>
             (case (stats_from enc_rates, stats_from dec_rates) of
                (Returned enc, Returned dec) \<Rightarrow> (Returned (enc, dec), w, t)
              | _ \<Rightarrow> (Panicked, w, t))))"

text \<open>What a run reports: both algorithms' statistics and the derivation time.\<close>

type_synonym bench_report = "(stats \<times> stats) \<times> (stats \<times> stats) \<times> rat"

definition run_bench ::
  "crypto \<Rightarrow> clock \<Rightarrow> bench_args \<Rightarrow> world \<times> nat \<Rightarrow> (cry_error + bench_report) outcome \<times> world \<times> nat" where
  "run_bench P clock args s =
    (let mib = max (size_mib args) 1;
         size_bytes = mib * 1024 * 1024 mod 2 ^ 64;
         samps = max (samples args) 1;
         runs = max (kdf_runs args) 1;
         (plain, w) = fill_bytes size_bytes (fst s);
         (salt, w) = fill_bytes 16 w;
         passphrase = str_bytes ''benchmark-passphrase''
     in (case benchmark_kdf P clock passphrase salt runs (snd s) of
           (Inl e, t) \<Rightarrow> (Returned (Inl e), w, t)
         | (Inr kdf_ms, t) \<Rightarrow>
             (case derive_key P passphrase salt of
                Inl e \<Rightarrow> (Returned (Inl e), w, t)
              | Inr key \<Rightarrow>
                  (case benchmark_algorithm P clock Aes256Gcm plain key (warmup args) samps (w, t) of
                     (Panicked, s) \<Rightarrow> (Panicked, s)
                   | (Returned aes, s) \<Rightarrow>
                       (case benchmark_algorithm P clock ChaCha20Poly1305 plain key (warmup args) samps s of
                          (Panicked, s) \<Rightarrow> (Panicked, s)
                        | (Returned chacha, s) \<Rightarrow> (Returned (Inr (aes, chacha, kdf_ms)), s))))))"

section \<open>The loop\<close>

lemma bench_loop_counts:
  assumes "\<And>t. \<exists>p t'. run t = (Returned p, t')"
  shows "\<exists>es ds t'. bench_loop run warm i n t = (Returned (es, ds), t') \<and>
    length es = i + n - max warm i \<and> length ds = i + n - max warm i"
proof (induction n arbitrary: i t)
  case 0
  then show ?case by simp
next
  case (Suc n)
  obtain e d t1 where run: "run t = (Returned (e, d), t1)" using assms [of t] by auto
  from Suc [of "Suc i" t1] obtain es ds t2 where
    "bench_loop run warm (Suc i) n t1 = (Returned (es, ds), t2)"
    "length es = Suc i + n - max warm (Suc i)" "length ds = Suc i + n - max warm (Suc i)" by blast
  with run show ?case by (cases "warm \<le> i") (auto simp: max_def)
qed

lemma single_run_Returned:
  assumes "ciphers_lawful P" "length key = 32" "length nonce = 12" "length plain \<le> 2 ^ 30" "length aad = 32"
  shows "\<exists>p t'. single_run P clock algo plain key nonce aad t = (Returned p, t')"
proof -
  have l: "aead_lawful (aes256gcm_encrypt P) (aes256gcm_decrypt P)"
    "aead_lawful (chacha20poly1305_encrypt P) (chacha20poly1305_decrypt P)"
    using assms(1) by (simp_all add: ciphers_lawful_def)
  have "length aad \<le> 2 ^ 30" using assms(5) by simp
  from aead_lawfulD [OF l(1) assms(2-4) this] aead_lawfulD [OF l(2) assms(2-4) this]
  show ?thesis by (cases algo) (auto simp: single_run_def Let_def)
qed

lemma sorted_nth_set: "i < length xs \<Longrightarrow> sort xs ! i \<in> set xs"
  by (metis length_sort nth_mem set_sort)

lemma stats_from_Returned:
  assumes "xs \<noteq> []"
  shows "stats_from xs = Returned
    \<lparr>median = sort xs ! round_half_up (of_nat (length xs - 1) * (1 / 2)),
     p95 = sort xs ! round_half_up (of_nat (length xs - 1) * (95 / 100))\<rparr>"
proof -
  have "sort xs \<noteq> []" using assms by (metis length_0_conv length_sort)
  then show ?thesis by (simp add: stats_from_def percentile_Returned Let_def del: One_nat_def)
qed

lemma sorted_prefix_le:
  assumes "sorted ys" "k < length ys"
  shows "Suc k \<le> length (filter (\<lambda>y. y \<le> ys ! k) ys)"
proof -
  have "filter (\<lambda>y. y \<le> ys ! k) (take (Suc k) ys) = take (Suc k) ys"
  proof (rule filter_True, rule ballI)
    fix y assume "y \<in> set (take (Suc k) ys)"
    then obtain i where "i < length (take (Suc k) ys)" "take (Suc k) ys ! i = y"
      by (auto simp only: in_set_conv_nth)
    then have "i \<le> k" "ys ! i = y" by auto
    then show "y \<le> ys ! k" using assms sorted_nth_mono by blast
  qed
  moreover have "filter (\<lambda>y. y \<le> ys ! k) ys = filter (\<lambda>y. y \<le> ys ! k) (take (Suc k) ys) @
      filter (\<lambda>y. y \<le> ys ! k) (drop (Suc k) ys)"
    by (metis append_take_drop_id filter_append)
  ultimately show ?thesis using assms(2) by simp
qed

lemma sorted_prefix_less:
  assumes "sorted ys" "k < length ys"
  shows "length (filter (\<lambda>y. y < ys ! k) ys) \<le> k"
proof -
  have "filter (\<lambda>y. y < ys ! k) (drop k ys) = []"
  proof (rule filter_False, rule ballI)
    fix y assume "y \<in> set (drop k ys)"
    then obtain i where "i < length (drop k ys)" "drop k ys ! i = y"
      by (auto simp only: in_set_conv_nth)
    then have "k + i < length ys" "ys ! (k + i) = y" by auto
    then show "\<not> y < ys ! k" using assms sorted_nth_mono [of ys k "k + i"] by auto
  qed
  moreover have "filter (\<lambda>y. y < ys ! k) ys = filter (\<lambda>y. y < ys ! k) (take k ys) @
      filter (\<lambda>y. y < ys ! k) (drop k ys)"
    by (metis append_take_drop_id filter_append)
  ultimately have "length (filter (\<lambda>y. y < ys ! k) ys) \<le> length (take k ys)"
    by (simp only: append_Nil2 length_filter_le)
  then show ?thesis by simp
qed

lemma length_filter_sort: "length (filter P (sort xs)) = length (filter P xs)"
  by (metis mset_filter mset_sort size_mset)

text \<open>
  \<open>ranks i xs v\<close>: sorted in ascending order, the values \<open>xs\<close> have \<open>v\<close> at position
  \<open>i\<close>, counted from 0; said by counting smaller values, without sorting.
\<close>

definition ranks :: "nat \<Rightarrow> rat list \<Rightarrow> rat \<Rightarrow> bool" where
  "ranks i xs v \<longleftrightarrow> v \<in> set xs \<and> length (filter (\<lambda>x. x < v) xs) \<le> i \<and> i < length (filter (\<lambda>x. x \<le> v) xs)"

lemma ranks_unique:
  assumes "ranks i xs u" "ranks i xs v"
  shows "u = v"
proof -
  have less: "length (filter (\<lambda>x. x \<le> a) xs) \<le> length (filter (\<lambda>x. x < b) xs)" if "a < b" for a b
  proof -
    have "length (filter (\<lambda>x. x \<le> a) xs) = length (filter (\<lambda>x. x \<le> a) (filter (\<lambda>x. x < b) xs))"
      using that by (auto intro!: arg_cong [where f = length] filter_cong)
    then show ?thesis by (simp only: length_filter_le)
  qed
  have "\<not> u < v" "\<not> v < u" using assms less [of u v] less [of v u] by (auto simp: ranks_def)
  then show ?thesis by simp
qed

lemma ranks_sorted: "i < length xs \<Longrightarrow> ranks i xs (sort xs ! i)"
  using sorted_prefix_le [OF sorted_sort, of i xs] sorted_prefix_less [OF sorted_sort, of i xs]
  by (simp add: ranks_def length_filter_sort sorted_nth_set)

text \<open>The ranks of the two percentiles, in integers.\<close>

lemma round_half_up_divide:
  assumes "0 < d"
  shows "round_half_up (of_nat n * (of_nat m / of_nat d)) = (2 * m * n + d) div (2 * d)"
proof -
  have "of_nat n * (of_nat m / of_nat d) + 1 / 2 = (of_nat (2 * m * n + d) / of_nat (2 * d) :: rat)"
    using assms by (simp add: field_simps)
  then show ?thesis by (simp only: round_half_up_def floor_divide_of_nat_eq nat_int)
qed

lemma percentile_ranks:
  assumes "0 < n"
  shows "round_half_up (of_nat (n - 1) * (1 / 2)) = n div 2"
    and "round_half_up (of_nat (n - 1) * (95 / 100)) = (19 * (n - 1) + 10) div 20"
proof -
  have "(2 * (n - 1) + 2) div 4 = n div 2" using assms by (cases n) auto
  then show "round_half_up (of_nat (n - 1) * (1 / 2)) = n div 2"
    using round_half_up_divide [of 2 "n - 1" 1] by simp
  have "(95 / 100 :: rat) = of_nat 19 / of_nat 20" by simp
  moreover have "(2 * 19 * (n - 1) + 20) div (2 * 20) = (19 * (n - 1) + 10) div 20"
    using div_mult_mult1 [of 2 "19 * (n - 1) + 10" 20] by simp
  ultimately show "round_half_up (of_nat (n - 1) * (95 / 100)) = (19 * (n - 1) + 10) div 20"
    using round_half_up_divide [of 20 "n - 1" 19] by (simp only: zero_less_numeral)
qed

section \<open>Properties\<close>

text \<open>A world without files, for the instances below.\<close>

definition idle_world :: world where
  "idle_world = \<lparr>files = \<lambda>_. None, create_mode = 420, faults = [], deliver = (\<lambda>_. []),
    wplans = [], buffered = 0, entropy = (\<lambda>_. 0), drawn = 0, thread_entropy = (\<lambda>_. 0), answers = []\<rparr>"

text \<open>C33. The reported statistics are the order statistics they are named after: of \<open>n\<close>
  samples in ascending order, counted from 0, the median is the one at \<open>n div 2\<close> and the 95th
  percentile the one nearest to 0.95 times \<open>n - 1\<close>, upwards when two are equally near; the order
  in which the samples came in does not matter.\<close>

theorem stats_are_order_statistics:
  assumes "xs \<noteq> []" and "mset ys = mset xs"
  shows "\<exists>s. stats_from xs = Returned s \<and> stats_from ys = Returned s \<and>
    ranks (length xs div 2) xs (median s) \<and>
    ranks ((19 * (length xs - 1) + 10) div 20) xs (p95 s)"
proof -
  have sorts: "sort ys = sort xs" "length ys = length xs" "ys \<noteq> []"
    using assms by (metis properties_for_sort sorted_sort mset_sort, metis size_mset, auto)
  have "0 < length xs" using assms(1) by simp
  note rank = percentile_ranks [OF this]
  let ?s = "\<lparr>median = sort xs ! (length xs div 2), p95 = sort xs ! ((19 * (length xs - 1) + 10) div 20)\<rparr>"
  have idx: "length xs div 2 < length xs" "(19 * (length xs - 1) + 10) div 20 < length xs"
    using percentile_index [of "1 / 2" xs] percentile_index [of "95 / 100" xs] assms(1)
    by (simp_all only: rank) simp_all
  have "stats_from xs = Returned ?s" "stats_from ys = Returned ?s"
    by (simp_all only: stats_from_Returned [OF assms(1)] stats_from_Returned [OF sorts(3)] sorts rank)
  moreover have "ranks (length xs div 2) xs (median ?s)" "ranks ((19 * (length xs - 1) + 10) div 20) xs (p95 ?s)"
    by (simp_all only: stats.select_convs ranks_sorted idx)
  ultimately show ?thesis by blast
qed

theorem stats_are_order_statistics_witness:
  "\<exists>s. stats_from [3, 1, 4, 2] = Returned s \<and> stats_from [1, 2, 3, 4] = Returned s \<and> median s = 3 \<and> p95 s = 4"
proof -
  have pos: "length [3, 1, 4, 2 :: rat] div 2 = 2" "(19 * (length [3, 1, 4, 2 :: rat] - 1) + 10) div 20 = 3"
    by simp_all
  have "\<exists>s. stats_from [3, 1, 4, 2] = Returned s \<and> stats_from [1, 2, 3, 4] = Returned s \<and>
    ranks (length [3, 1, 4, 2 :: rat] div 2) [3, 1, 4, 2] (median s) \<and>
    ranks ((19 * (length [3, 1, 4, 2 :: rat] - 1) + 10) div 20) [3, 1, 4, 2] (p95 s)"
    by (rule stats_are_order_statistics) simp_all
  then have "\<exists>s. stats_from [3, 1, 4, 2] = Returned s \<and> stats_from [1, 2, 3, 4] = Returned s \<and>
    ranks 2 [3, 1, 4, 2] (median s) \<and> ranks 3 [3, 1, 4, 2] (p95 s)" by (simp only: pos)
  moreover have "ranks 2 [3, 1, 4, 2] 3" "ranks 3 [3, 1, 4, 2] 4" by (simp_all add: ranks_def)
  ultimately show ?thesis using ranks_unique by blast
qed

text \<open>C34. With lawful ciphers and payloads they accept, a benchmark of at least one sample panics
  exactly when the number of warm-up rounds and samples together does not fit 32 bits: the round
  counter wraps below the warm-up count, no sample is recorded, and the percentile of an empty
  list is out of range.\<close>

theorem benchmark_panics_iff_rounds_wrap:
  assumes "ciphers_lawful P" "hashes_sized P" "length key = 32" "length plain \<le> 2 ^ 30" "0 < samps"
  shows "fst (benchmark_algorithm P clock algo plain key warm samps s) = Panicked \<longleftrightarrow>
    2 ^ 32 \<le> unat warm + unat samps"
proof -
  let ?nonce = "fst (fill_bytes 12 (fst s))" and ?aad = "sha256 P (str_bytes ''cry-bench-aad'')"
  let ?n = "unat (warm + samps)"
  have "length ?nonce = 12" "length ?aad = 32" using assms(2) by (simp_all add: hashes_sized_def)
  then have run: "\<exists>p t'. single_run P clock algo plain key ?nonce ?aad t = (Returned p, t')" for t
    using single_run_Returned assms(1,3,4) by blast
  obtain es ds t where loop: "bench_loop (single_run P clock algo plain key ?nonce ?aad)
      (unat warm) 0 ?n (snd s) = (Returned (es, ds), t)"
    "length es = ?n - unat warm" "length ds = ?n - unat warm"
    using bench_loop_counts [where run = "single_run P clock algo plain key ?nonce ?aad" and
        warm = "unat warm" and i = 0 and n = ?n and t = "snd s", OF run] by auto
  have n: "?n = (if 2 ^ 32 \<le> unat warm + unat samps then unat warm + unat samps - 2 ^ 32
      else unat warm + unat samps)"
    using unat_u32_less [of warm] unat_u32_less [of samps] by (simp add: unat_word_ariths mod_if)
  have pos: "0 < unat samps" using assms(5) by (simp add: word_less_nat_alt)
  show ?thesis
  proof (cases "2 ^ 32 \<le> unat warm + unat samps")
    case True
    then have "es = []" using loop(2) n unat_u32_less [of samps] by simp
    then have "stats_from es = Panicked" by (simp add: stats_from_def percentile_def)
    with True loop(1) show ?thesis by (simp add: benchmark_algorithm_def split_beta)
  next
    case False
    then have "es \<noteq> []" "ds \<noteq> []" using loop(2,3) n pos by auto
    with False loop(1) show ?thesis
      by (simp add: benchmark_algorithm_def split_beta stats_from_Returned)
  qed
qed

theorem benchmark_panics_iff_rounds_wrap_witness:
  "fst (benchmark_algorithm demo_crypto (\<lambda>n. of_nat n) Aes256Gcm [1] (replicate 32 7) 4294967295 1
     (idle_world, 0)) = Panicked"
  using benchmark_panics_iff_rounds_wrap [OF demo_ciphers_lawful demo_hashes_sized, of "replicate 32 7"
      "[1]" 1 "\<lambda>n. of_nat n" Aes256Gcm 4294967295 "(idle_world, 0)"]
  by simp

end
