(* ===== verification/Cry_Cli.thy ===== *)
theory Cry_Cli
  imports Cry_Ssh Cry_Keygen Cry_Bench
begin

text \<open>
  The command line, \<open>src/main.rs\<close>: the arguments of the subcommands, the passphrase
  helpers, the dispatch and the exit code. Parsing the command line is in
  \<open>Cry_Syntax\<close>; of the output, the rows that \<open>sign\<close> and \<open>verify\<close> print are
  kept here, as the user carries them from one command to the other.
\<close>

section \<open>Arguments\<close>

record encrypt_args =
  ea_plain :: string
  ea_cipher :: string
  ea_algorithm :: algorithm
  ea_force :: bool
  ea_pass_file :: "string option"

record decrypt_args =
  dc_cipher :: string
  dc_plain :: string
  dc_force :: bool
  dc_pass_file :: "string option"

record identity_params =
  ip_namespace :: string
  ip_key_version :: u32
  ip_sub_id :: "string option"
  ip_pass_file :: "string option"

record sign_args =
  sg_file :: string
  sg_params :: identity_params

record verify_args =
  vf_file :: string
  vf_signature :: string
  vf_public_key :: string

datatype command =
    Encrypt encrypt_args
  | Decrypt decrypt_args
  | Keygen keygen_args
  | Derive derive_args
  | Sign sign_args
  | Verify verify_args
  | Bench bench_args
  | Ssh ssh_args

section \<open>Passphrases\<close>

text \<open>\<open>rpassword::prompt_password\<close>: the next line typed, an error when the terminal has
  ended.\<close>

definition prompt_password :: "world \<Rightarrow> (io_error + bytes) \<times> world" where
  "prompt_password w =
    (case answers w of
       [] \<Rightarrow> (Inl UnexpectedEof, w)
     | r # rs \<Rightarrow> (r, w\<lparr>answers := rs\<rparr>))"

definition first_line :: "bytes \<Rightarrow> bytes" where
  "first_line bs = takeWhile (\<lambda>b. \<not> (b = 0x0A \<or> b = 0x0D)) bs"

definition read_passphrase :: "string option \<Rightarrow> bool \<Rightarrow> world \<Rightarrow> (cry_error + bytes) \<times> world" where
  "read_passphrase pass_file confirm w =
    (case pass_file of
       Some path \<Rightarrow>
         and_then (map_err Io (fs_read path w)) (\<lambda>contents w.
         if first_line contents = [] then (Inl EmptyPassphrase, w)
         else (Inr (first_line contents), w))
     | None \<Rightarrow>
         and_then (map_err Io (prompt_password w)) (\<lambda>pass w.
         if pass = [] then (Inl EmptyPassphrase, w)
         else if confirm then
           and_then (map_err Io (prompt_password w)) (\<lambda>confirm_pass w.
           if pass \<noteq> confirm_pass then (Inl PassphraseMismatch, w) else (Inr pass, w))
         else (Inr pass, w)))"

definition read_openssh_passphrase :: "world \<Rightarrow> (cry_error + bytes) \<times> world" where
  "read_openssh_passphrase w =
     and_then (map_err Io (prompt_password w)) (\<lambda>pass w.
     if pass = [] then (Inl EmptyPassphrase, w) else
     and_then (map_err Io (prompt_password w)) (\<lambda>confirm w.
     if pass \<noteq> confirm then (Inl PassphraseMismatch, w) else (Inr pass, w)))"

definition openssh_pass :: "bool \<Rightarrow> world \<Rightarrow> (cry_error + bytes option) \<times> world" where
  "openssh_pass openssh w =
    (if openssh then and_then (read_openssh_passphrase w) (\<lambda>p w. (Inr (Some p), w))
     else (Inr None, w))"

section \<open>The commands that read one file\<close>

text \<open>A printed row.\<close>

type_synonym row = "string \<times> string"

definition run_sign :: "crypto \<Rightarrow> sign_args \<Rightarrow> world \<Rightarrow> (cry_error + row list) \<times> world" where
  "run_sign P args w =
    (let p = sg_params args
     in and_then (map_err Io (fs_read (sg_file args) w)) (\<lambda>bs w.
        and_then (read_passphrase (ip_pass_file p) False w) (\<lambda>pass w.
        and_then (identity_derive P pass (ip_namespace p) (ip_key_version p) (ip_sub_id p), w) (\<lambda>i w.
        let sig_hex = signature_hex (sign_content P i bs)
        in (Inr [(''Public key'', public_key_hex P i), (''File'', sg_file args), (''Signature'', sig_hex)], w)))))"

text \<open>Slicing a text panics out of range and off a character boundary.\<close>

definition slice_text :: "string \<Rightarrow> nat \<Rightarrow> nat \<Rightarrow> string outcome" where
  "slice_text s a b =
    (if a \<le> b \<and> b \<le> length s \<and> char_boundary (drop a s) \<and> char_boundary (drop b s)
     then Returned (take (b - a) (drop a s)) else Panicked)"

definition ellipsis :: string where
  "ellipsis = [CHR 0xE2, CHR 0x80, CHR 0xA6]"

definition abbreviate :: "string \<Rightarrow> string outcome" where
  "abbreviate s =
    (case slice_text s 0 8 of
       Panicked \<Rightarrow> Panicked
     | Returned a \<Rightarrow>
         (case slice_text s (length s - 8) (length s) of
            Panicked \<Rightarrow> Panicked
          | Returned b \<Rightarrow> Returned (a @ ellipsis @ b)))"

definition of_outcome :: "(cry_error + 'a) outcome \<Rightarrow> failure + 'a" where
  "of_outcome r =
    (case r of
       Panicked \<Rightarrow> Inl Panics
     | Returned (Inl e) \<Rightarrow> Inl (Failed e)
     | Returned (Inr x) \<Rightarrow> Inr x)"

definition run_verify :: "crypto \<Rightarrow> verify_args \<Rightarrow> world \<Rightarrow> (failure + row list) \<times> world" where
  "run_verify P args w =
     and_then (map_err (Failed \<circ> Io) (fs_read (vf_file args) w)) (\<lambda>content w.
     and_then (of_outcome (verify_content_signature P (vf_public_key args) content (vf_signature args)), w)
       (\<lambda>_ w.
     case abbreviate (vf_signature args) of
       Panicked \<Rightarrow> (Inl Panics, w)
     | Returned s \<Rightarrow>
         (Inr [(''File'', vf_file args), (''Public key'', vf_public_key args), (''Signature'', s)], w)))"

section \<open>Dispatch\<close>

text \<open>
  The state of the process: the system, the child processes, the clock readings taken and what was
  printed; \<open>on_sys\<close> runs a command that only uses the system.
\<close>

datatype printout = Row row | ErrorLine string

record cli =
  sys :: world
  procs :: trace
  ticks :: nat
  printed :: "printout list"

definition on_sys :: "(world \<Rightarrow> ('e + 'a) \<times> world) \<Rightarrow> cli \<Rightarrow> ('e + 'a) \<times> cli" where
  "on_sys f s = (let (r, w) = f (sys s) in (r, s\<lparr>sys := w\<rparr>))"

definition no_rows :: "('e + unit) \<times> 's \<Rightarrow> ('e + row list) \<times> 's" where
  "no_rows m = and_then m (\<lambda>_ s. (Inr [], s))"

definition run_derive :: "crypto \<Rightarrow> derive_args \<Rightarrow> world \<Rightarrow> (failure + unit) \<times> world" where
  "run_derive P args w =
     and_then (map_err Failed (openssh_pass (da_openssh args) w)) (\<lambda>p w.
     and_then (map_err Failed
       (case da_passphrase args of
          Some raw \<Rightarrow> if raw = [] then (Inl EmptyPassphrase, w) else (Inr (str_bytes raw), w)
        | None \<Rightarrow> read_passphrase None False w)) (\<lambda>pass w.
     derive P args pass p w))"

definition run_ssh_command ::
  "crypto \<Rightarrow> ssh_env \<Rightarrow> ssh_args \<Rightarrow> cli \<Rightarrow> (cry_error + unit) \<times> cli" where
  "run_ssh_command P env args s =
    (let ssh = (\<lambda>pass s. let (r, tr) = run_ssh P env args pass (procs s) in (r, s\<lparr>procs := tr\<rparr>))
     in case sa_passphrase args of
          Some raw \<Rightarrow> ssh (str_bytes raw) s
        | None \<Rightarrow> and_then (on_sys (read_passphrase None False) s) ssh)"

definition run_bench_command ::
  "crypto \<Rightarrow> clock \<Rightarrow> bench_args \<Rightarrow> cli \<Rightarrow> (failure + unit) \<times> cli" where
  "run_bench_command P clock args s =
    (let (r, w, t) = run_bench P clock args (sys s, ticks s)
     in and_then (of_outcome r, s\<lparr>sys := w, ticks := t\<rparr>) (\<lambda>_ s. (Inr (), s)))"

fun run_command ::
  "crypto \<Rightarrow> ssh_env \<Rightarrow> clock \<Rightarrow> command \<Rightarrow> cli \<Rightarrow> (failure + row list) \<times> cli" where
  "run_command P env clock (Encrypt args) s = no_rows (map_err Failed (on_sys (\<lambda>w.
     and_then (read_passphrase (ea_pass_file args) True w) (\<lambda>p w.
     encrypt_file P (ea_plain args) (ea_cipher args) p (ea_algorithm args) (ea_force args) w)) s))"
| "run_command P env clock (Decrypt args) s = no_rows (map_err Failed (on_sys (\<lambda>w.
     and_then (read_passphrase (dc_pass_file args) False w) (\<lambda>p w.
     decrypt_file P (dc_plain args) (dc_cipher args) p (dc_force args) w)) s))"
| "run_command P env clock (Keygen args) s = no_rows (on_sys (\<lambda>w.
     and_then (map_err Failed (openssh_pass (kg_openssh args) w)) (\<lambda>p w.
     keygen P args p w)) s)"
| "run_command P env clock (Derive args) s = no_rows (on_sys (run_derive P args) s)"
| "run_command P env clock (Sign args) s = map_err Failed (on_sys (run_sign P args) s)"
| "run_command P env clock (Verify args) s = on_sys (run_verify P args) s"
| "run_command P env clock (Bench args) s = no_rows (run_bench_command P clock args s)"
| "run_command P env clock (Ssh args) s = no_rows (map_err Failed (run_ssh_command P env args s))"

text \<open>The process: its exit code, 101 when the main thread panics.\<close>

definition cry_main ::
  "crypto \<Rightarrow> ssh_env \<Rightarrow> clock \<Rightarrow> command option \<Rightarrow> cli \<Rightarrow> nat \<times> cli" where
  "cry_main P env clock cmd s =
    (case cmd of
       None \<Rightarrow> (0, s)
     | Some c \<Rightarrow>
         (case run_command P env clock c s of
            (Inr rows, s) \<Rightarrow> (0, s\<lparr>printed := printed s @ map Row rows\<rparr>)
          | (Inl (Failed e), s) \<Rightarrow> (1, s\<lparr>printed := printed s @ [ErrorLine (display_error (os_text env) e)]\<rparr>)
          | (Inl Panics, s) \<Rightarrow> (101, s)))"

section \<open>Passphrase helpers\<close>

lemma touches_prompt_password [frame]: "touches S w (snd (prompt_password w))"
  by (simp add: prompt_password_def touches_def split: list.splits)

lemma touches_read_passphrase [frame]: "touches S w (snd (read_passphrase pass_file confirm w))"
proof (cases pass_file)
  case None
  have "touches S v (snd (if pass = [] then (Inl EmptyPassphrase, v)
      else if confirm then and_then (map_err Io (prompt_password v)) (\<lambda>confirm_pass w.
        if pass \<noteq> confirm_pass then (Inl PassphraseMismatch, w) else (Inr pass, w))
      else (Inr pass, v)))" for pass v
    by (auto simp: frame intro!: touches_and_then)
  then show ?thesis
    unfolding read_passphrase_def None option.case by (intro touches_and_then) (simp_all add: frame)
next
  case (Some path)
  then show ?thesis
    unfolding read_passphrase_def by (auto intro!: touches_and_then simp: frame)
qed

lemma touches_openssh_pass [frame]: "touches S w (snd (openssh_pass openssh w))"
  unfolding openssh_pass_def read_openssh_passphrase_def
  by (auto simp: frame intro!: touches_and_then)

lemma prompt_password_Inr: "prompt_password w = (Inr pass, w') \<longleftrightarrow> answers w = Inr pass # answers w' \<and> w' = w\<lparr>answers := answers w'\<rparr>"
  by (cases w; cases w') (auto simp: prompt_password_def split: list.splits)

lemma fs_read_Inr:
  assumes "fs_read p w = (Inr bs, w')"
  shows "\<exists>e. files w p = Some e \<and> contents e = bs" and "answers w' = answers w"
  using assms
  by (auto simp: fs_read_def file_open_def lookup_file_def syscall_def result_iffs
      split: option.splits list.splits)

lemma first_line_split:
  "\<exists>rest. bs = first_line bs @ rest \<and> (rest = [] \<or> hd rest \<in> {0x0A, 0x0D})"
  using hd_dropWhile [of "\<lambda>b. \<not> (b = 0x0A \<or> b = 0x0D)" bs]
  by (auto simp: first_line_def intro!: exI [of _ "dropWhile (\<lambda>b. \<not> (b = 0x0A \<or> b = 0x0D)) bs"])

lemma read_passphrase_serene:
  assumes "serene w"
  shows "serene (snd (read_passphrase pass_file confirm w))"
proof -
  have keep: "serene (snd (prompt_password v))" if "serene v" for v
    using that by (auto simp: prompt_password_def serene_def calm_def faithful_def split: list.splits)
  have "snd (fs_read p w) = w" for p
    using assms by (auto simp: serene_def fs_read_def file_open_def split: option.splits)
  then show ?thesis
    using assms unfolding read_passphrase_def
    by (cases pass_file) (auto intro!: and_then_state [where Q = serene] simp: keep
        split: if_splits)
qed

section \<open>Which files a command may change\<close>

definition outputs_of :: "command \<Rightarrow> string set" where
  "outputs_of c =
    (case c of
       Encrypt a \<Rightarrow> {ea_cipher a, cry_tmp (ea_cipher a)}
     | Decrypt a \<Rightarrow> {dc_plain a, plain_tmp (dc_plain a)}
     | Keygen a \<Rightarrow> key_outputs (kg_output a) (kg_algo a) (kg_openssh a)
     | Derive a \<Rightarrow> key_outputs (da_output a) (da_algo a) (da_openssh a)
     | _ \<Rightarrow> {})"

lemma no_rows_state [simp]: "snd (no_rows m) = snd m"
  by (auto simp: no_rows_def and_then_def split: sum.splits prod.splits)

lemma on_sys_state [simp]: "sys (snd (on_sys f s)) = snd (f (sys s))"
  by (simp add: on_sys_def split_beta)

lemma touches_benchmark_algorithm:
  "benchmark_algorithm P clock algo plain key wu sa (w, t) = (r, w', t') \<Longrightarrow> touches S w w'"
  using touches_fill_bytes [of S w 12]
  by (auto simp: benchmark_algorithm_def Let_def split_beta split: outcome.splits)

lemma touches_run_bench:
  assumes "run_bench P clock args (w, t) = (r, w', t')"
  shows "touches S w w'"
proof -
  let ?n = "max (size_mib args) 1 * 1024 * 1024 mod 2 ^ 64"
  obtain plain w1 where w1: "fill_bytes ?n w = (plain, w1)" by fastforce
  obtain salt w2 where w2: "fill_bytes 16 w1 = (salt, w2)" by fastforce
  have start: "touches S w w2"
    using touches_fill_bytes [of S w ?n] touches_fill_bytes [of S w1 16] w1 w2 by (auto intro: touches_trans)
  have rest: "w' = w2 \<or> touches S w2 w'"
    using assms w1 w2 unfolding run_bench_def Let_def
    by (auto split: sum.splits prod.splits outcome.splits dest!: touches_benchmark_algorithm [of _ _ _ _ _ _ _ _ _ _ _ _ S]
        intro: touches_trans)
  with start show ?thesis by (auto intro: touches_trans)
qed

lemma touches_run_sign: "touches S w (snd (run_sign P args w))"
  unfolding run_sign_def Let_def by (intro touches_and_then) (simp_all add: frame)

lemma touches_run_verify: "touches S w (snd (run_verify P args w))"
  unfolding run_verify_def
  by (intro touches_and_then) (simp_all add: frame split: outcome.splits)

lemma touches_run_derive:
  "touches (key_outputs (da_output args) (da_algo args) (da_openssh args)) w (snd (run_derive P args w))"
  unfolding run_derive_def
  by (intro touches_and_then) (auto simp: frame derive_touches split: option.splits if_splits)

lemma run_command_touches: "touches (outputs_of c) (sys s) (sys (snd (run_command P env clock c s)))"
proof (cases c)
  case (Encrypt a)
  have "touches (outputs_of c) w (snd (encrypt_file P (ea_plain a) (ea_cipher a) p (ea_algorithm a) (ea_force a) w))"
    for p w
    by (rule touches_mono [OF encrypt_file_touches]) (auto simp: outputs_of_def Encrypt entry_def)
  with Encrypt show ?thesis by (auto intro!: touches_and_then simp: frame)
next
  case (Decrypt a)
  have "touches (outputs_of c) w (snd (decrypt_file P (dc_plain a) (dc_cipher a) p (dc_force a) w))"
    for p w
    by (rule touches_mono [OF decrypt_file_touches]) (auto simp: outputs_of_def Decrypt entry_def)
  with Decrypt show ?thesis by (auto intro!: touches_and_then simp: frame)
next
  case (Keygen a)
  then show ?thesis by (auto intro!: touches_and_then keygen_touches simp: frame outputs_of_def)
next
  case (Derive a)
  then show ?thesis by (simp add: touches_run_derive outputs_of_def)
next
  case (Bench a)
  obtain r w t where run: "run_bench P clock a (sys s, ticks s) = (r, w, t)" by (metis prod.collapse)
  from touches_run_bench [OF run] Bench run show ?thesis
    by (simp add: run_bench_command_def outputs_of_def and_then_def split: sum.splits)
next
  case (Ssh a)
  then show ?thesis
    using touches_read_passphrase [of "{}" "sys s" None False]
    by (auto simp: run_ssh_command_def outputs_of_def split_beta Let_def and_then_def on_sys_def
        split: option.splits sum.splits prod.splits)
qed (simp_all add: touches_run_sign touches_run_verify)

lemma cry_main_touches:
  "touches (case c of None \<Rightarrow> {} | Some d \<Rightarrow> outputs_of d) (sys s) (sys (snd (cry_main P env clock c s)))"
proof (cases c)
  case (Some d)
  then show ?thesis
    using run_command_touches [of d s P env clock]
    by (auto simp: cry_main_def split: prod.splits sum.splits failure.splits)
qed (simp add: cry_main_def)

section \<open>The encrypt command in a world without failures\<close>

lemma encrypt_command_serene:
  assumes "primitives_work P" "serene (sys s)" "length pass < 2 ^ 32"
    and "fst (read_passphrase (ea_pass_file ea) True (sys s)) = Inr pass"
    and "files (sys s) (ea_plain ea) = Some pe" "length (contents pe) < 2 ^ 64"
    and "ea_plain ea \<noteq> cry_tmp (ea_cipher ea)" "file_name (ea_cipher ea) = Some n"
    and "files (sys s) (ea_cipher ea) = None \<or> ea_force ea"
  shows "\<exists>s1 e h key body. cry_main P env clock (Some (Encrypt ea)) s = (0, s1) \<and> serene (sys s1) \<and>
    files (sys s1) (ea_cipher ea) = Some e \<and>
    header_wf h \<and> derive_key P pass (hdr_salt h) = Inr key \<and>
    contents e = header_image P key h @ body \<and>
    sealed_file P key h (pieces (contents pe)) body []"
proof -
  obtain w where w: "read_passphrase (ea_pass_file ea) True (sys s) = (Inr pass, w)"
    using assms(4) by (metis prod.collapse)
  have "serene w" "files w = files (sys s)"
    using read_passphrase_serene [OF assms(2), of "ea_pass_file ea" True] w
      touches_none [OF touches_read_passphrase [of "{}" "sys s" "ea_pass_file ea" True]] by simp_all
  with encrypt_file_serene [of P w pass "ea_plain ea" pe "ea_cipher ea" n "ea_force ea" "ea_algorithm ea"]
    assms(1,3,5-9)
  obtain w1 e h key body where
    "encrypt_file P (ea_plain ea) (ea_cipher ea) pass (ea_algorithm ea) (ea_force ea) w = (Inr (), w1)"
      "serene w1" "files w1 (ea_cipher ea) = Some e"
      "header_wf h" "derive_key P pass (hdr_salt h) = Inr key"
      "contents e = header_image P key h @ body"
      "sealed_file P key h (pieces (contents pe)) body []" by auto
  with w show ?thesis by (auto simp: cry_main_def no_rows_def on_sys_def)
qed

section \<open>What the ssh command reads of its arguments\<close>

lemma unix_ssh_command_pass_file: "unix_ssh_command agent (a\<lparr>sa_pass_file := f\<rparr>) = unix_ssh_command agent a"
  by (simp add: unix_ssh_command_def append_common_ssh_args_def)

lemma run_ssh_unix_pass_file: "run_ssh_unix env (a\<lparr>sa_pass_file := f\<rparr>) = run_ssh_unix env a"
proof -
  have "ssh_session env (a\<lparr>sa_pass_file := f\<rparr>) = ssh_session env a"
    by (intro ext) (simp only: ssh_session_def unix_ssh_command_pass_file)
  then show ?thesis by (intro ext) (simp only: run_ssh_unix_def)
qed

lemma run_ssh_pass_file: "run_ssh P env (a\<lparr>sa_pass_file := f\<rparr>) = run_ssh P env a"
  by (intro ext) (simp add: run_ssh_def run_ssh_unix_pass_file)

section \<open>Signatures on the command line\<close>

text \<open>The hexadecimal parser accepts ASCII only, two characters for a byte.\<close>

lemma hex_pairs_accepted:
  "hex_pairs s = Returned (Inr bs) \<Longrightarrow> even (length s) \<Longrightarrow>
     list_all (\<lambda>c. of_char c < (128 :: nat)) s \<and> length s = 2 * length bs"
proof (induction s arbitrary: bs rule: hex_pairs.induct)
  case (1 c d rest)
  from "1.prems" obtain b bs' where b: "from_str_radix_16 c d = Inr b" "bs = b # bs'"
    "hex_pairs rest = Returned (Inr bs')" "char_boundary rest"
    by (auto split: if_splits sum.splits outcome.splits)
  have digit: "hex_value c = Some n \<Longrightarrow> of_char c < (128 :: nat)" for c n
    by (auto simp: hex_value_def Let_def split: if_splits)
  have "of_char c < (128 :: nat)" "of_char d < (128 :: nat)"
    using b(1) digit by (auto simp: from_str_radix_16_def split: option.splits if_splits)
  with "1.IH" [OF _ b(1) b(3)] "1.prems" b show ?case by auto
qed auto

lemma hex_to_bytes_accepted:
  "hex_to_bytes s = Returned (Inr bs) \<Longrightarrow>
     list_all (\<lambda>c. of_char c < (128 :: nat)) s \<and> length s = 2 * length bs"
  using hex_pairs_accepted [of s bs] by (auto simp: hex_to_bytes_def split: if_splits)

lemma char_boundary_ascii: "list_all (\<lambda>c. of_char c < (128 :: nat)) s \<Longrightarrow> char_boundary (drop n s)"
proof (cases "drop n s")
  case (Cons a r)
  assume *: "list_all (\<lambda>c. of_char c < (128 :: nat)) s"
  have "a \<in> set s" using Cons by (metis in_set_dropD list.set_intros(1))
  with * have "of_char a < (128 :: nat)" by (simp add: list_all_iff)
  with Cons show ?thesis by (simp add: char_boundary_def)
qed (simp add: char_boundary_def)

lemma abbreviate_ascii:
  assumes "list_all (\<lambda>c. of_char c < (128 :: nat)) s" and "8 \<le> length s"
  shows "abbreviate s = Returned (take 8 s @ ellipsis @ drop (length s - 8) s)"
  using char_boundary_ascii [OF assms(1)] char_boundary_ascii [OF assms(1), of 0] assms(2)
  by (simp add: abbreviate_def slice_text_def char_boundary_def)

lemma run_verify_calm:
  assumes "calm w" and "files w (vf_file v) = Some e"
  shows "run_verify P v w =
    (case verify_content_signature P (vf_public_key v) (contents e) (vf_signature v) of
       Panicked \<Rightarrow> (Inl Panics, w)
     | Returned (Inl x) \<Rightarrow> (Inl (Failed x), w)
     | Returned (Inr _) \<Rightarrow>
         (Inr [(''File'', vf_file v), (''Public key'', vf_public_key v),
            (''Signature'', take 8 (vf_signature v) @ ellipsis @
               drop (length (vf_signature v) - 8) (vf_signature v))], w))"
proof -
  have accepted: "abbreviate (vf_signature v) = Returned (take 8 (vf_signature v) @ ellipsis @
      drop (length (vf_signature v) - 8) (vf_signature v))"
    if "verify_content_signature P (vf_public_key v) (contents e) (vf_signature v) = Returned (Inr u)" for u
  proof -
    from that obtain sb where "hex_to_bytes (vf_signature v) = Returned (Inr sb)" "length sb = 64"
      by (auto simp: verify_content_signature_def parse_hex_def split: outcome.splits sum.splits if_splits)
    then show ?thesis using hex_to_bytes_accepted abbreviate_ascii by force
  qed
  show ?thesis
    using assms accepted
    by (auto simp: run_verify_def fs_read_def file_open_def of_outcome_def split: outcome.splits sum.splits)
qed

lemma sign_command_prints:
  assumes "cry_main P env clock (Some (Sign a)) s = (0, s1)"
  obtains bs v pass i where "fs_read (sg_file a) (sys s) = (Inr bs, v)"
    and "fst (read_passphrase (ip_pass_file (sg_params a)) False v) = Inr pass"
    and "identity_derive P pass (ip_namespace (sg_params a)) (ip_key_version (sg_params a))
      (ip_sub_id (sg_params a)) = Inr i"
    and "printed s1 = printed s @ [Row (''Public key'', public_key_hex P i), Row (''File'', sg_file a),
      Row (''Signature'', signature_hex (sign_content P i bs))]"
proof -
  obtain rows s0 where "run_command P env clock (Sign a) s = (Inr rows, s0)"
    and "s1 = s0\<lparr>printed := printed s0 @ map Row rows\<rparr>"
    using assms by (auto simp: cry_main_def split: prod.splits sum.splits failure.splits)
  then show ?thesis
    by (auto simp: on_sys_def run_sign_def Let_def result_iffs split: prod.splits intro: that)
qed

lemma verify_command_accepts:
  assumes "ed25519_lawful P" and "length (signing_key i) = 32"
    and "calm (sys t)" and "files (sys t) f = Some e"
  shows "fst (cry_main P env clock (Some (Verify \<lparr>vf_file = f,
      vf_signature = signature_hex (sign_content P i (contents e)), vf_public_key = public_key_hex P i\<rparr>)) t) = 0"
  using signed_content_verifies [OF assms(1,2), of "contents e"] assms(3,4)
  by (simp add: cry_main_def on_sys_def run_verify_calm)

section \<open>What the derive command leaves\<close>

lemma derive_command_writes:
  assumes "da_algo d = Ed25519" and "da_passphrase d = Some raw"
    and "cry_main P env clock (Some (Derive d)) s = (0, s1)"
  obtains i e where "identity_derive P (str_bytes raw) (da_namespace d) (da_key_version d) (da_sub_id d) = Inr i"
    and "files (sys s1) (da_output d @ ''.cry_pub_id'') = Some e"
    and "contents e = str_bytes (hex_encode P (verifying_key P i))"
proof -
  obtain w p where "derive P d (str_bytes raw) p w = (Inr (), sys s1)"
    using assms(2,3)
    by (auto simp: cry_main_def on_sys_def no_rows_def run_derive_def result_iffs
        split: prod.splits sum.splits failure.splits if_splits)
  then obtain i w2 where i: "identity_derive P (str_bytes raw) (da_namespace d) (da_key_version d) (da_sub_id d) = Inr i"
    and run: "write_identity_files P (da_output d @ ''.cry_id'') (da_output d @ ''.cry_pub_id'') i
      (da_openssh d) p (da_comment d) (da_force d) w2 = (Inr (), sys s1)"
    by (auto simp: derive_Ed25519 [OF assms(1)] result_iffs)
  from write_identity_files_Inr(2) [OF run] i that show ?thesis by blast
qed

section \<open>Properties\<close>

definition sample_cli :: "world \<Rightarrow> cli" where
  "sample_cli w = \<lparr>sys = w, procs = [], ticks = 0, printed = []\<rparr>"

lemma sys_sample_cli [simp]: "sys (sample_cli w) = w"
  by (simp add: sample_cli_def)

text \<open>C29. Where a passphrase comes from: it is never empty and no file changes; with a pass file
  the terminal is not asked and it is the file up to the first line break of either kind; otherwise
  it is the next line typed, and where a confirmation is asked it was typed twice in a row.\<close>

theorem passphrase_sources:
  assumes "read_passphrase pass_file confirm w = (Inr p, w')"
  shows "p \<noteq> [] \<and> files w' = files w \<and>
    (\<forall>path. pass_file = Some path \<longrightarrow> answers w' = answers w \<and>
       (\<exists>e rest. files w path = Some e \<and> contents e = p @ rest \<and> 0x0A \<notin> set p \<and> 0x0D \<notin> set p \<and>
          (rest = [] \<or> hd rest \<in> {0x0A, 0x0D}))) \<and>
    (pass_file = None \<longrightarrow>
       answers w = (if confirm then [Inr p, Inr p] else [Inr p]) @ answers w')"
proof (cases pass_file)
  case (Some path)
  then obtain bs where bs: "fs_read path w = (Inr bs, w')" "first_line bs = p" "p \<noteq> []"
    using assms by (auto simp: read_passphrase_def result_iffs split: if_splits)
  moreover have "0x0A \<notin> set (first_line bs)" "0x0D \<notin> set (first_line bs)"
    by (auto simp: first_line_def dest: set_takeWhileD)
  moreover have "files w' = files w"
    using touches_none [OF touches_fs_read [of "{}" w path]] bs(1) by simp
  ultimately show ?thesis using Some fs_read_Inr [OF bs(1)] first_line_split [of bs] by auto
next
  case None
  have "files w' = files w"
    using touches_none [OF touches_read_passphrase [of "{}" w pass_file confirm]] assms by simp
  with None assms show ?thesis
    by (auto simp: read_passphrase_def result_iffs prompt_password_Inr split: if_splits)
qed

theorem passphrase_sources_witness:
  "\<exists>w'. read_passphrase (Some ''a'') True (sample_world [(''a'', [5, 6, 13, 10, 7])]) = (Inr [5, 6], w') \<and>
     answers w' = []"
proof -
  let ?w = "sample_world [(''a'', [5, 6, 13, 10, 7])]"
  have run: "read_passphrase (Some ''a'') True ?w = (Inr [5, 6], ?w)"
    by (simp add: read_passphrase_def fs_read_def file_open_def sample_files first_line_def)
  from passphrase_sources [OF run] run show ?thesis by (simp add: sample_world_def)
qed

text \<open>A sequence of commands.\<close>

fun run_session :: "crypto \<Rightarrow> ssh_env \<Rightarrow> clock \<Rightarrow> command option list \<Rightarrow> cli \<Rightarrow> cli" where
  "run_session P env clock [] s = s"
| "run_session P env clock (c # cs) s = run_session P env clock cs (snd (cry_main P env clock c s))"

text \<open>C18. No command changes a file it does not name: over any sequence of commands, with any
  failures, panics and terminal input, a file that is no output of any of them (for encryption
  and decryption the output and its temporary sibling, for the key commands the files with their
  suffixes; signing, verifying, benchmarks and ssh have none) is as it was.\<close>

theorem commands_touch_only_their_outputs:
  assumes "\<forall>c \<in> set cs. q \<notin> (case c of None \<Rightarrow> {} | Some d \<Rightarrow> outputs_of d)"
  shows "files (sys (run_session P env clock cs s)) q = files (sys s) q"
  using assms
proof (induction cs arbitrary: s)
  case (Cons c cs)
  then show ?case using touches_files [OF cry_main_touches, of q c P env clock s] by simp
qed simp

theorem commands_touch_only_their_outputs_witness:
  "files (sys (run_session demo_crypto (sample_ssh_env []) (\<lambda>n. of_nat n)
     [Some (Encrypt \<lparr>ea_plain = ''a'', ea_cipher = ''o.cry'', ea_algorithm = Aes256Gcm, ea_force = True,
        ea_pass_file = Some ''b''\<rparr>), None]
     (sample_cli (sample_world [(''a'', [5]), (''b'', [7])])))) ''a'' = Some \<lparr>contents = [5], mode = 420\<rparr>"
  using commands_touch_only_their_outputs [of
      "[Some (Encrypt \<lparr>ea_plain = ''a'', ea_cipher = ''o.cry'', ea_algorithm = Aes256Gcm, ea_force = True,
        ea_pass_file = Some ''b''\<rparr>), None]" "''a''" demo_crypto "sample_ssh_env []" "\<lambda>n. of_nat n"
      "sample_cli (sample_world [(''a'', [5]), (''b'', [7])])"]
  by (simp add: outputs_of_def sample_paths sample_files)

text \<open>C12. Encrypting and then decrypting from the command line: without failures, when both
  commands get one passphrase, whether from a file or typed, both processes exit with code 0 and
  the last output holds the first input byte for byte.\<close>

theorem command_line_roundtrip:
  assumes "primitives_work P" "serene (sys s)" "length pass < 2 ^ 32"
    and "fst (read_passphrase (ea_pass_file ea) True (sys s)) = Inr pass"
    and "files (sys s) (ea_plain ea) = Some pe" "length (contents pe) < 2 ^ 64"
    and "ea_plain ea \<noteq> cry_tmp (ea_cipher ea)" "file_name (ea_cipher ea) = Some n"
    and "files (sys s) (ea_cipher ea) = None \<or> ea_force ea"
    and "cry_main P env clock (Some (Encrypt ea)) s = (code1, s1)"
    and "dc_cipher da = ea_cipher ea" "fst (read_passphrase (dc_pass_file da) False (sys s1)) = Inr pass"
    and "plain_tmp (dc_plain da) \<noteq> ea_cipher ea" "file_name (dc_plain da) = Some m"
    and "files (sys s1) (dc_plain da) = None \<or> dc_force da"
    and "cry_main P env clock (Some (Decrypt da)) s1 = (code2, s2)"
  shows "code1 = 0 \<and> code2 = 0 \<and>
    (\<exists>e. files (sys s2) (dc_plain da) = Some e \<and> contents e = contents pe)"
proof -
  from encrypt_command_serene [OF assms(1-9), of env clock] assms(10) obtain e h key body where
    enc: "code1 = 0" "serene (sys s1)" "files (sys s1) (ea_cipher ea) = Some e"
      "header_wf h" "derive_key P pass (hdr_salt h) = Inr key"
      "contents e = header_image P key h @ body"
      "sealed_file P key h (pieces (contents pe)) body []" by auto
  obtain v where v: "read_passphrase (dc_pass_file da) False (sys s1) = (Inr pass, v)"
    using assms(12) by (metis prod.collapse)
  have ser: "serene v" and fv: "files v = files (sys s1)"
    using read_passphrase_serene [OF enc(2), of "dc_pass_file da" False] v
      touches_none [OF touches_read_passphrase [of "{}" "sys s1" "dc_pass_file da" False]] by simp_all
  have c: "files v (ea_cipher ea) = Some e" "files v (dc_plain da) = None \<or> dc_force da"
    using fv enc(3) assms(15) by simp_all
  have img: "contents e = header_image P key h @ body @ []" using enc(6) by simp
  from decrypt_file_serene [OF assms(1) ser enc(4,5) c(1) img enc(7) piece_lengths_pieces assms(13,14) c(2)]
    assms(11,16) enc(1) v
  show ?thesis by (auto simp: cry_main_def no_rows_def on_sys_def)
qed

theorem command_line_roundtrip_witness:
  "\<exists>s1 s2 e.
    cry_main demo_crypto (sample_ssh_env []) (\<lambda>n. of_nat n) (Some (Encrypt \<lparr>ea_plain = ''a'',
      ea_cipher = ''o.cry'', ea_algorithm = Aes256Gcm, ea_force = False, ea_pass_file = Some ''k''\<rparr>))
      (sample_cli (sample_world [(''a'', [5, 6]), (''k'', [1, 2, 10])])) = (0, s1) \<and>
    cry_main demo_crypto (sample_ssh_env []) (\<lambda>n. of_nat n) (Some (Decrypt \<lparr>dc_cipher = ''o.cry'',
      dc_plain = ''b'', dc_force = False, dc_pass_file = Some ''k''\<rparr>)) s1 = (0, s2) \<and>
    files (sys s2) ''b'' = Some e \<and> contents e = [5, 6]"
proof -
  let ?s = "sample_cli (sample_world [(''a'', [5, 6]), (''k'', [1, 2, 10])])"
  let ?ea = "\<lparr>ea_plain = ''a'', ea_cipher = ''o.cry'', ea_algorithm = Aes256Gcm, ea_force = False,
      ea_pass_file = Some ''k''\<rparr>"
  let ?da = "\<lparr>dc_cipher = ''o.cry'', dc_plain = ''b'', dc_force = False, dc_pass_file = Some ''k''\<rparr>"
  let ?main = "cry_main demo_crypto (sample_ssh_env []) (\<lambda>n. of_nat n)"
  have line: "fst (read_passphrase (Some ''k'') confirm w) = Inr [1, 2]"
    if "calm w" "files w ''k'' = Some e" "contents e = [1, 2, 10]" for confirm w e
    using that by (simp add: read_passphrase_def fs_read_def file_open_def first_line_def)
  have k: "files (sys ?s) ''k'' = Some \<lparr>contents = [1, 2, 10], mode = 420\<rparr>" by (simp add: sample_files)
  have pass: "fst (read_passphrase (ea_pass_file ?ea) True (sys ?s)) = Inr [1, 2]"
    using line [OF _ k] by simp
  obtain s1 where enc: "?main (Some (Encrypt ?ea)) ?s = (0, s1)" and ser: "serene (sys s1)"
    using encrypt_command_serene [OF demo_primitives_work, of ?s "[1, 2]" ?ea
        "\<lparr>contents = [5, 6], mode = 420\<rparr>" "''o.cry''" "sample_ssh_env []" "\<lambda>n. of_nat n"] pass by (auto simp: sample_files sample_paths)
  obtain c2 s2 where dec: "?main (Some (Decrypt ?da)) s1 = (c2, s2)" by fastforce
  have t: "files (sys s1) q = files (sys ?s) q" if "q \<noteq> ''o.cry''" "q \<noteq> ''o.cry.tmp''" for q
    using touches_files [OF cry_main_touches [of "Some (Encrypt ?ea)" ?s demo_crypto
        "sample_ssh_env []" "\<lambda>n. of_nat n"], of q] that enc by (simp add: outputs_of_def sample_paths)
  have "calm (sys s1)" using ser by (simp add: serene_def)
  then have pass2: "fst (read_passphrase (dc_pass_file ?da) False (sys s1)) = Inr [1, 2]"
    using line [of "sys s1"] t [of "''k''"] k by simp
  from command_line_roundtrip [where pe = "\<lparr>contents = [5, 6], mode = 420\<rparr>" and n = "''o.cry''"
      and m = "''b''", OF demo_primitives_work _ _ pass _ _ _ _ _ enc _ pass2 _ _ _ dec] enc dec t [of "''b''"]
  show ?thesis by (auto simp: sample_files sample_paths)
qed

text \<open>Signing and then verifying: when \<open>cry sign\<close> exits with
  code 0 it has printed a public key and a signature with which \<open>cry verify\<close>, run later and
  anywhere, exits with code 0 on any file of the same content; neither changes a file.\<close>

lemma printed_signature_verifies:
  assumes "ed25519_lawful P" and "argon2_sized P"
    and "cry_main P env clock (Some (Sign a)) s = (0, s1)"
    and "files (sys s) (sg_file a) = Some e" and "files (sys t) f = Some e'" "contents e' = contents e"
    and "calm (sys t)"
  shows "\<exists>key sig kb sb. printed s1 = printed s @
      [Row (''Public key'', key), Row (''File'', sg_file a), Row (''Signature'', sig)] \<and>
    length key = 64 \<and> length sig = 128 \<and> key = bytes_to_hex kb \<and> sig = bytes_to_hex sb \<and>
    fst (cry_main P env' clock' (Some (Verify \<lparr>vf_file = f, vf_signature = sig, vf_public_key = key\<rparr>)) t) = 0 \<and>
    files (sys s1) = files (sys s)"
proof -
  from sign_command_prints [OF assms(3)] obtain bs v pass i where bs: "fs_read (sg_file a) (sys s) = (Inr bs, v)"
    and i: "identity_derive P pass (ip_namespace (sg_params a)) (ip_key_version (sg_params a))
      (ip_sub_id (sg_params a)) = Inr i"
    and rows: "printed s1 = printed s @ [Row (''Public key'', public_key_hex P i), Row (''File'', sg_file a),
      Row (''Signature'', signature_hex (sign_content P i bs))]" by metis
  have "bs = contents e'" using fs_read_Inr(1) [OF bs] assms(4,6) by auto
  moreover have seed: "length (signing_key i) = 32" by (rule identity_derive_length [OF assms(2) i])
  moreover have "length (public_key_hex P i) = 64" "length (signature_hex (sign_content P i bs)) = 128"
    using assms(1) seed
    by (simp_all add: ed25519_lawful_def public_key_hex_def signature_hex_def sign_content_def
        verifying_key_def)
  moreover have "files (sys s1) = files (sys s)"
    using touches_none cry_main_touches [of "Some (Sign a)" s P env clock] assms(3)
    by (simp add: outputs_of_def)
  ultimately show ?thesis
    using rows verify_command_accepts [OF assms(1) seed assms(7,5)]
    unfolding public_key_hex_def signature_hex_def by auto
qed

text \<open>C26. What the exit code of \<open>cry verify\<close> means: on a readable file it is 0 exactly when
  the key text decodes to 32 bytes that are an Ed25519 point, the signature text decodes to 64
  bytes and the Ed25519 check passes on the domain-separated digest of the content; it is 101, a
  panic, only when the key or the signature is not ASCII, never from printing the abbreviated
  signature; and 1 otherwise.\<close>

theorem verify_exit_code:
  assumes "calm (sys s)" and "files (sys s) (vf_file v) = Some e"
  shows "(fst (cry_main P env clock (Some (Verify v)) s) = 0 \<longleftrightarrow>
      (\<exists>pk key sb. hex_to_bytes (vf_public_key v) = Returned (Inr pk) \<and> length pk = 32 \<and>
        ed25519_point P pk = Inr key \<and>
        hex_to_bytes (vf_signature v) = Returned (Inr sb) \<and> length sb = 64 \<and>
        ed25519_verify P key (sha256 P (SIG_DOMAIN @ sha256 P (contents e))) sb)) \<and>
    (fst (cry_main P env clock (Some (Verify v)) s) = 101 \<longrightarrow>
      \<not> list_all (\<lambda>c. of_char c < (128 :: nat)) (vf_public_key v) \<or>
      \<not> list_all (\<lambda>c. of_char c < (128 :: nat)) (vf_signature v)) \<and>
    fst (cry_main P env clock (Some (Verify v)) s) \<in> {0, 1, 101}"
proof -
  let ?r = "verify_content_signature P (vf_public_key v) (contents e) (vf_signature v)"
  have code: "fst (cry_main P env clock (Some (Verify v)) s) =
      (case ?r of Panicked \<Rightarrow> 101 | Returned (Inl x) \<Rightarrow> 1 | Returned (Inr u) \<Rightarrow> 0)"
    using assms by (auto simp: cry_main_def on_sys_def run_verify_calm split: outcome.splits sum.splits)
  have ascii: "list_all (\<lambda>c. of_char c < (128 :: nat)) h \<Longrightarrow> hex_to_bytes h \<noteq> Panicked" for h
    using hex_pairs_ascii [of h] by (simp add: hex_to_bytes_def)
  have "?r = Panicked \<Longrightarrow> hex_to_bytes (vf_public_key v) = Panicked \<or> hex_to_bytes (vf_signature v) = Panicked"
    by (auto simp: verify_content_signature_def parse_hex_def split: outcome.splits sum.splits if_splits)
  with ascii verify_accepts_iff [of P "vf_public_key v" "contents e" "vf_signature v"]
  show ?thesis by (auto simp: code split: outcome.splits sum.splits)
qed

theorem verify_exit_code_witness:
  "fst (cry_main demo_crypto (sample_ssh_env []) (\<lambda>n. of_nat n) (Some (Verify
     \<lparr>vf_file = ''a'', vf_signature = ''00'', vf_public_key = ''abc''\<rparr>))
     (sample_cli (sample_world [(''a'', [5])]))) = 1"
proof -
  let ?v = "\<lparr>vf_file = ''a'', vf_signature = ''00'', vf_public_key = ''abc''\<rparr>"
  have odd: "hex_to_bytes ''abc'' \<noteq> Returned (Inr pk)" for pk by (simp add: hex_to_bytes_def)
  have "calm (sys (sample_cli (sample_world [(''a'', [5])])))" by simp
  from verify_exit_code [OF this, of ?v "\<lparr>contents = [5], mode = 420\<rparr>" demo_crypto "sample_ssh_env []"
      "\<lambda>n. of_nat n"] odd
  show ?thesis by (auto simp: sample_files)
qed

text \<open>\<open>cry ssh\<close> does not look at its pass file, and takes an empty passphrase from its
  option that every other command refuses: the identity is derived from no bytes at all.\<close>

lemma ssh_ignores_pass_file_and_takes_empty:
  "run_command P env clock (Ssh (a\<lparr>sa_pass_file := f\<rparr>)) s = run_command P env clock (Ssh (a\<lparr>sa_pass_file := g\<rparr>)) s \<and>
   procs (snd (run_command P env clock (Ssh (a\<lparr>sa_passphrase := Some []\<rparr>)) s)) =
     snd (run_ssh P env (a\<lparr>sa_passphrase := Some []\<rparr>) [] (procs s)) \<and>
   fst (run_command P env clock (Derive (d\<lparr>da_passphrase := Some [], da_openssh := False\<rparr>)) s) =
     Inl (Failed EmptyPassphrase)"
proof (intro conjI)
  show "run_command P env clock (Ssh (a\<lparr>sa_pass_file := f\<rparr>)) s = run_command P env clock (Ssh (a\<lparr>sa_pass_file := g\<rparr>)) s"
    by (simp add: run_ssh_command_def run_ssh_pass_file)
  show "procs (snd (run_command P env clock (Ssh (a\<lparr>sa_passphrase := Some []\<rparr>)) s)) =
      snd (run_ssh P env (a\<lparr>sa_passphrase := Some []\<rparr>) [] (procs s))"
    by (simp add: run_ssh_command_def Let_def split_beta str_bytes_def)
  show "fst (run_command P env clock (Derive (d\<lparr>da_passphrase := Some [], da_openssh := False\<rparr>)) s) =
      Inl (Failed EmptyPassphrase)"
    by (simp add: run_derive_def openssh_pass_def on_sys_def no_rows_def)
qed

end
