(* ===== verification/Cry_Windows.thy ===== *)
theory Cry_Windows
  imports Cry_Ssh Cry_Keygen
begin

text \<open>
  The Windows variant of \<open>src/ssh.rs\<close>: the private key in a temporary file whose access
  list is restricted before any key byte is written, removed when the session is over.
\<close>

section \<open>Windows: the temporary key file\<close>

text \<open>
  \<open>temp_dir\<close> is \<open>env::temp_dir\<close>; \<open>icacls\<close> and \<open>whoami\<close> are external
  programs. The trace records the runs of \<open>icacls\<close> with their arguments and success, when key
  bytes are written, and when ssh runs.
\<close>

record win_env =
  temp_dir :: string
  whoami_output :: "io_error + bytes"
  icacls_status :: "string list \<Rightarrow> io_error + bool"
  win_ssh_status :: "io_error + bool"
  win_text :: "io_error \<Rightarrow> string"

datatype win_event =
    IcaclsRun "string list" bool
  | KeyWritten string
  | WinSsh "string list"

type_synonym win_state = "world \<times> win_event list"

definition on_world :: "(world \<Rightarrow> ('e + 'a) \<times> world) \<Rightarrow> win_state \<Rightarrow> ('e + 'a) \<times> win_state" where
  "on_world f s = (let (r, w) = f (fst s) in (r, w, snd s))"

definition log_event :: "win_event \<Rightarrow> win_state \<Rightarrow> win_state" where
  "log_event ev s = (fst s, snd s @ [ev])"

definition backslash :: string where
  "backslash = [CHR 0x5C]"

definition path_join :: "string \<Rightarrow> string \<Rightarrow> string" where
  "path_join d f =
    (if d = [] \<or> last d = CHR 0x5C \<or> last d = CHR ''/'' then d @ f else d @ backslash @ f)"

text \<open>\<open>OpenOptions\<close>: \<open>create_new\<close> fails on an existing file; opening for writing
  without truncation overwrites from the start.\<close>

definition file_create_new :: "string \<Rightarrow> world \<Rightarrow> (io_error + unit) \<times> world" where
  "file_create_new p w = and_then (entry_call p w) (\<lambda>_ w.
     if files w p \<noteq> None then (Inl AlreadyExists, w)
     else (Inr (), set_file p \<lparr>contents = [], mode = create_mode w\<rparr> w))"

definition file_open_write :: "string \<Rightarrow> world \<Rightarrow> (io_error + unit) \<times> world" where
  "file_open_write p w = and_then (lookup_file p w) (\<lambda>_ w. (Inr (), w))"

definition overwrite_file :: "string \<Rightarrow> bytes \<Rightarrow> world \<Rightarrow> (io_error + unit) \<times> world" where
  "overwrite_file p bs w =
    (let (wr, w) = new_writer w;
         (res, wr) = write_all bs wr
     in (res, case files w p of
                None \<Rightarrow> w
              | Some e \<Rightarrow> set_file p (e\<lparr>contents := sunk wr @ drop (length (sunk wr)) (contents e)\<rparr>) w))"

definition fallback_user :: string where
  "fallback_user = ''BUILTIN'' @ backslash @ ''Users''"

definition whoami_windows :: "win_env \<Rightarrow> string" where
  "whoami_windows env =
    (case whoami_output env of
       Inl e \<Rightarrow> fallback_user
     | Inr out \<Rightarrow>
         if \<not> valid_utf8 out then fallback_user
         else let s = trim (text_of out) in if s = [] then fallback_user else s)"

definition icacls_args :: "win_env \<Rightarrow> string \<Rightarrow> string list" where
  "icacls_args env path = [path, ''/inheritance:r'', ''/grant:r'', whoami_windows env @ '':F'']"

text \<open>The three steps of \<open>TempKeyFile::create\<close> at a chosen path, then the choice of it.\<close>

definition key_file_fill :: "win_env \<Rightarrow> string \<Rightarrow> string \<Rightarrow> win_state \<Rightarrow> (cry_error + string) \<times> win_state" where
  "key_file_fill env key_pem path s =
     and_then (map_err Io (on_world (file_create_new path) s)) (\<lambda>_ s.
     let acl_ok = (case icacls_status env (icacls_args env path) of
                     Inl e \<Rightarrow> False | Inr success \<Rightarrow> success);
         s = log_event (IcaclsRun (icacls_args env path) acl_ok) s
     in if \<not> acl_ok
        then (Inl (InvalidFormat (''Failed to restrict temp key file permissions with icacls; '' @
                ''refusing to write key material to an unsecured file.'')),
              snd (remove_file path (fst s)), snd s)
        else
          and_then (map_err Io (on_world (file_open_write path) s)) (\<lambda>_ s.
          and_then (map_err Io (on_world (overwrite_file path (str_bytes key_pem))
            (log_event (KeyWritten path) s))) (\<lambda>_ s.
          and_then (map_err Io (on_world syscall s)) (\<lambda>_ s.
          (Inr path, s)))))"

definition key_file_path :: "win_env \<Rightarrow> bytes \<Rightarrow> string" where
  "key_file_path env rng_bytes =
    (let suffix = bytes_to_hex rng_bytes
     in path_join (temp_dir env) (''cry_'' @ suffix @ ''.pem''))"

definition key_file_create :: "win_env \<Rightarrow> string \<Rightarrow> win_state \<Rightarrow> (cry_error + string) \<times> win_state" where
  "key_file_create env key_pem s =
    (let (rng_bytes, w) = fill_bytes 8 (fst s)
     in key_file_fill env key_pem (key_file_path env rng_bytes) (w, snd s))"

definition key_file_drop :: "string \<Rightarrow> win_state \<Rightarrow> win_state" where
  "key_file_drop path s =
    (let w = (case lookup_file path (fst s) of
                (Inl e, w) \<Rightarrow> w
              | (Inr meta, w) \<Rightarrow>
                  (case file_open_write path w of
                     (Inl e, w) \<Rightarrow> w
                   | (Inr _, w) \<Rightarrow>
                       let zeros = replicate (length (contents meta)) 0
                       in snd (syscall (snd (overwrite_file path zeros w)))))
     in (snd (remove_file path w), snd s))"

definition windows_session :: "win_env \<Rightarrow> ssh_args \<Rightarrow> string \<Rightarrow> win_state \<Rightarrow> (cry_error + unit) \<times> win_state" where
  "windows_session env args path s =
    (let cmd = append_common_ssh_args
           [''-i'', path, ''-o'', ''IdentitiesOnly=yes'', ''-o'', ''PubkeyAuthentication=yes'',
            ''-o'', ''PreferredAuthentications=publickey'', ''-o'', ''IdentityAgent=none''] args
     in case win_ssh_status env of
          Inl e \<Rightarrow> (Inl (InvalidFormat (''Failed to exec ssh: '' @ win_text env e)), s)
        | Inr success \<Rightarrow> (Inr (), log_event (WinSsh cmd) s))"

definition run_ssh_windows ::
  "win_env \<Rightarrow> ssh_args \<Rightarrow> string \<Rightarrow> win_state \<Rightarrow> (cry_error + unit) \<times> win_state" where
  "run_ssh_windows env args key_pem s =
     bracket (key_file_create env key_pem) (windows_session env args) key_file_drop s"

subsection \<open>The key file is a guarded resource\<close>

lemma steady_updates [simp]:
  "steady (set_file p e w) = steady w" "steady (clear_file p w) = steady w"
  "steady (snd (fill_bytes n w)) = steady w" "steady (snd (new_writer w)) = steady w"
  by (simp_all add: steady_def set_file_def clear_file_def fill_bytes_def new_writer_def split: list.splits)

lemma steady_calls [simp]:
  assumes "steady w"
  shows "syscall w = (Inr (), w)"
    and "entry_call p w = (if file_name p = None then (Inl (OtherIo 21), w) else (Inr (), w))"
    and "lookup_file p w = (case files w p of None \<Rightarrow> (Inl NotFound, w) | Some e \<Rightarrow> (Inr e, w))"
  using assms by (simp_all add: steady_def syscall_def entry_call_def lookup_file_def)

lemma overwrite_steady:
  assumes "steady w" "files w p = Some e"
  shows "steady (snd (overwrite_file p bs w)) \<and>
    (\<exists>e'. files (snd (overwrite_file p bs w)) = (files w)(p := Some e'))"
proof -
  obtain wr v where wr: "new_writer w = (wr, v)" by fastforce
  obtain r wr' where "write_all bs wr = (r, wr')" by fastforce
  moreover have "files v = files w" "steady v"
    using touches_none [OF touches_new_writer [of "{}" w]] steady_updates(4) [of w] assms(1) wr by auto
  ultimately show ?thesis using wr assms(2) by (auto simp: overwrite_file_def)
qed

text \<open>\<open>files_were F\<close>: no key file; \<open>key_file_at F path\<close>: one key file, at a path that was free.\<close>

definition files_were :: "(string \<Rightarrow> fentry option) \<Rightarrow> win_state \<Rightarrow> bool" where
  "files_were F s \<longleftrightarrow> steady (fst s) \<and> files (fst s) = F"

definition key_file_at :: "(string \<Rightarrow> fentry option) \<Rightarrow> string \<Rightarrow> win_state \<Rightarrow> bool" where
  "key_file_at F path s \<longleftrightarrow> steady (fst s) \<and> F path = None \<and> file_name path \<noteq> None \<and>
     (\<exists>e. files (fst s) = F(path := Some e))"

lemma key_file_fill_Inr:
  assumes "files_were F s" "key_file_fill env key path s = (Inr g, s')"
  shows "g = path \<and> key_file_at F path s'"
proof -
  obtain w tr where s: "s = (w, tr)" by (cases s)
  have w: "steady w" "files w = F" using assms(1) by (simp_all add: files_were_def s)
  let ?w1 = "set_file path \<lparr>contents = [], mode = create_mode w\<rparr> w"
  have new: "file_name path \<noteq> None" "F path = None"
    using assms(2) w by (auto simp: key_file_fill_def s on_world_def file_create_new_def
        and_then_Inr_iff map_err_Inr_iff split: if_splits)
  have w1: "steady ?w1" "files ?w1 path = Some \<lparr>contents = [], mode = create_mode w\<rparr>" using w by simp_all
  from overwrite_steady [OF this, of "str_bytes key"] obtain e where
    over: "steady (snd (overwrite_file path (str_bytes key) ?w1))"
      "files (snd (overwrite_file path (str_bytes key) ?w1)) = F(path := Some e)"
    using w by auto
  then have "g = path \<and> fst s' = snd (overwrite_file path (str_bytes key) ?w1)"
    using assms(2) new w
    by (auto simp: key_file_fill_def s on_world_def file_create_new_def file_open_write_def
        log_event_def Let_def split_beta result_iffs split: if_splits)
  with over new show ?thesis by (auto simp: key_file_at_def)
qed

text \<open>A creation that fails, but not by writing the key, leaves no file.\<close>

lemma key_file_fill_Inl:
  assumes "files_were F s" "key_file_fill env key path s = (Inl e, s')"
    and "fst (write_all (str_bytes key) (fst (new_writer (fst s)))) = Inr ()"
  shows "files (fst s') = F"
proof -
  obtain w tr where s: "s = (w, tr)" by (cases s)
  have w: "steady w" "files w = F" using assms(1) by (simp_all add: files_were_def s)
  let ?w1 = "set_file path \<lparr>contents = [], mode = create_mode w\<rparr> w"
  show ?thesis
  proof (cases "file_name path = None \<or> F path \<noteq> None")
    case True
    with assms(2) w show ?thesis
      by (auto simp: key_file_fill_def s on_world_def file_create_new_def Let_def split: if_splits)
  next
    case False
    have "fst (new_writer ?w1) = fst (new_writer w)" by (simp add: new_writer_def set_file_def split: list.splits)
    then have written: "fst (overwrite_file path (str_bytes key) ?w1) = Inr ()"
      using assms(3) s by (simp add: overwrite_file_def split_beta)
    then obtain v where over: "overwrite_file path (str_bytes key) ?w1 = (Inr (), v)" "steady v"
      using overwrite_steady [of ?w1 path _ "str_bytes key"] w
      by (cases "overwrite_file path (str_bytes key) ?w1") auto
    have "files_were F (clear_file path ?w1, tr)" using w False by (auto simp: files_were_def fun_upd_idem_iff)
    then show ?thesis
      using assms(2) w False over
      by (auto simp: key_file_fill_def s on_world_def file_create_new_def file_open_write_def remove_file_def
          log_event_def Let_def files_were_def split: if_splits sum.splits)
  qed
qed

lemma key_file_create_Inr:
  assumes "files_were F s" "key_file_create env key s = (Inr path, s')"
  shows "key_file_at F path s'"
proof -
  have "files_were F (snd (fill_bytes 8 (fst s)), snd s)"
    using assms(1) by (simp add: files_were_def)
  from key_file_fill_Inr [OF this, of env key "key_file_path env (fst (fill_bytes 8 (fst s)))" path s']
    assms(2)
  show ?thesis by (simp add: key_file_create_def split_beta)
qed

lemma key_file_drop_idle:
  assumes "key_file_at F path s"
  shows "files_were F (key_file_drop path s)"
proof -
  obtain e where w: "steady (fst s)" "F path = None" "file_name path \<noteq> None" "files (fst s) = F(path := Some e)"
    using assms by (auto simp: key_file_at_def)
  then have some: "files (fst s) path = Some e" by simp
  let ?z = "snd (overwrite_file path (replicate (length (contents e)) 0) (fst s))"
  from overwrite_steady [OF w(1) some] obtain e' where
    z: "steady ?z" "files ?z = F(path := Some e')" using w(4) by fastforce
  have "key_file_drop path s = (clear_file path ?z, snd s)"
    using w some z by (auto simp: key_file_drop_def file_open_write_def remove_file_def Let_def)
  with z w(2) show ?thesis by (auto simp: files_were_def)
qed

interpretation key_file: raii "key_file_create env key" key_file_drop "files_were F" "key_file_at F"
  for env key F
  by unfold_locales (simp_all add: key_file_create_Inr key_file_drop_idle)

text \<open>The events of a run, in every world.\<close>

lemma key_file_fill_trace:
  "\<exists>w' mid. snd (key_file_fill env key path (w, tr)) = (w', tr @ mid) \<and>
     (mid = [] \<or>
      mid = [IcaclsRun (icacls_args env path) (icacls_status env (icacls_args env path) = Inr True)] \<or>
      icacls_status env (icacls_args env path) = Inr True \<and>
        mid = [IcaclsRun (icacls_args env path) True, KeyWritten path])"
  by (auto simp: key_file_fill_def on_world_def log_event_def Let_def split_beta and_then_def map_err_def
      split: sum.splits)

lemma key_file_fill_done:
  assumes "key_file_fill env key path (w, tr) = (Inr g, s')"
  shows "g = path \<and> icacls_status env (icacls_args env path) = Inr True \<and>
    (\<exists>w'. s' = (w', tr @ [IcaclsRun (icacls_args env path) True, KeyWritten path]))"
  using assms
  by (auto simp: key_file_fill_def on_world_def log_event_def Let_def split_beta result_iffs
      split: sum.splits if_splits)

text \<open>The Windows entry point.\<close>

definition run_ssh_on_windows ::
  "crypto \<Rightarrow> win_env \<Rightarrow> ssh_args \<Rightarrow> bytes \<Rightarrow> win_state \<Rightarrow> (cry_error + unit) \<times> win_state" where
  "run_ssh_on_windows P env args passphrase s =
     and_then (identity_derive P passphrase (sa_namespace args) (sa_key_version args) (sa_sub_id args), s)
       (\<lambda>i s.
     let comment = ''CryDNA:'' @ sa_namespace args
     in and_then (encode_openssh_private_key P i comment, s) (\<lambda>key_pem s.
        run_ssh_windows env args key_pem s))"

lemma run_ssh_windows_trace:
  assumes "run_ssh_windows env args key (w, []) = (res, w', tr)"
  shows "\<exists>path. tr = [] \<or>
    tr = [IcaclsRun (icacls_args env path) (icacls_status env (icacls_args env path) = Inr True)] \<or>
    icacls_status env (icacls_args env path) = Inr True \<and>
      (tr = [IcaclsRun (icacls_args env path) True, KeyWritten path] \<or>
       (\<exists>rest. tr = [IcaclsRun (icacls_args env path) True, KeyWritten path,
          WinSsh ([''-i'', path] @ rest @ [sa_target args])]))"
proof -
  let ?v = "snd (fill_bytes 8 w)" and ?path = "key_file_path env (fst (fill_bytes 8 w))"
  obtain r v' tr' where fill: "key_file_fill env key ?path (?v, []) = (r, v', tr')"
    by (metis prod_cases3)
  show ?thesis
  proof (cases r)
    case (Inl e)
    with assms fill key_file_fill_trace [of env key ?path ?v "[]"] show ?thesis
      by (auto simp: run_ssh_windows_def bracket_def key_file_create_def split_beta)
  next
    case (Inr g)
    from key_file_fill_done [OF fill [unfolded Inr]] have "g = ?path"
      "icacls_status env (icacls_args env ?path) = Inr True"
      "tr' = [IcaclsRun (icacls_args env ?path) True, KeyWritten ?path]" by auto
    with assms fill Inr show ?thesis
      by (auto simp: run_ssh_windows_def bracket_def key_file_create_def split_beta windows_session_def
          key_file_drop_def log_event_def append_common_ssh_args_def Let_def split: sum.splits)
  qed
qed

section \<open>Properties\<close>


definition sample_win_env :: win_env where
  "sample_win_env = \<lparr>temp_dir = ''T'', whoami_output = Inr (str_bytes ''me''), icacls_status = (\<lambda>a. Inr True),
     win_ssh_status = Inr True, win_text = (\<lambda>e. ''os error'')\<rparr>"

definition sample_key_path :: string where
  "sample_key_path = ''T'' @ backslash @ ''cry_0707070707070707.pem''"

lemma sample_key_path_drawn:
  "temp_dir env = ''T'' \<Longrightarrow> key_file_path env (fst (fill_bytes 8 (sample_world fs))) = sample_key_path"
proof -
  have "fst (fill_bytes 8 (sample_world fs)) = replicate 8 7"
    by (simp add: fill_bytes_def sample_world_def map_replicate_const)
  moreover have "bytes_to_hex (replicate 8 7) = ''0707070707070707''" by code_simp
  moreover assume "temp_dir env = ''T''"
  ultimately show ?thesis by (simp add: key_file_path_def path_join_def sample_key_path_def)
qed

lemma sample_key_path_name: "file_name sample_key_path \<noteq> None"
  by code_simp

lemma sample_key_file:
  assumes "files (sample_world fs) sample_key_path = None"
  shows "\<exists>w. key_file_create sample_win_env ''KEY'' (sample_world fs, []) = (Inr sample_key_path,
    w, [IcaclsRun (icacls_args sample_win_env sample_key_path) True, KeyWritten sample_key_path])"
proof -
  have "calm (snd (fill_bytes 8 (sample_world fs)))" "steady (snd (fill_bytes 8 (sample_world fs)))" by simp_all
  moreover have "temp_dir sample_win_env = ''T''" by (simp add: sample_win_env_def)
  ultimately show ?thesis
    using assms sample_key_path_name sample_key_path_drawn [of sample_win_env fs]
    by (auto simp: key_file_create_def split_beta key_file_fill_def on_world_def file_create_new_def
        log_event_def file_open_write_def overwrite_file_def write_all_def Let_def sample_win_env_def
        simp del: append.simps append_Cons)
qed

lemma sample_whoami: "whoami_windows sample_win_env = ''me''"
  by code_simp


text \<open>C23. No key file outlives the run: when the system calls work and the key can be written, a run
  leaves every file, the temporary one included, as it found it: however the session ends, when the
  temporary name is taken, and when \<open>icacls\<close> fails, after which the still empty file is removed.\<close>

theorem windows_key_file_is_removed:
  assumes "steady w" and "run_ssh_windows env args key (w, tr) = (res, w', tr')"
    and "fst (write_all (str_bytes key) (fst (new_writer w))) = Inr ()"
  shows "files w' = files w"
proof -
  have idle: "files_were (files w) (w, tr)" using assms(1) by (simp add: files_were_def)
  show ?thesis
  proof (cases "fst (key_file_create env key (w, tr))")
    case (Inl e)
    then obtain s where made: "key_file_create env key (w, tr) = (Inl e, s)" by (metis prod.collapse)
    have "files_were (files w) (snd (fill_bytes 8 w), tr)" using assms(1) by (simp add: files_were_def)
    moreover have "fst (new_writer (snd (fill_bytes 8 w))) = fst (new_writer w)"
      by (simp add: new_writer_def fill_bytes_def split: list.splits)
    ultimately have "files (fst s) = files w"
      using key_file_fill_Inl [of "files w" "(snd (fill_bytes 8 w), tr)" env key] made assms(3)
      by (simp add: key_file_create_def split_beta)
    with made assms(2) show ?thesis by (simp add: run_ssh_windows_def bracket_def)
  next
    case (Inr path)
    then obtain s where made: "key_file_create env key (w, tr) = (Inr path, s)" by (metis prod.collapse)
    have "key_file_at (files w) path s" by (rule key_file_create_Inr [OF idle made])
    then have "key_file_at (files w) path (snd (windows_session env args path s))"
      by (auto simp: windows_session_def Let_def log_event_def key_file_at_def split: sum.splits)
    then show ?thesis
      using key_file.bracket_idle [OF idle made, of "windows_session env args"] assms(2)
      by (auto simp: run_ssh_windows_def files_were_def)
  qed
qed

theorem windows_key_file_is_removed_witness:
  "\<exists>res w' tr. run_ssh_windows (sample_win_env\<lparr>icacls_status := (\<lambda>a. Inr False)\<rparr>) sample_ssh_args ''KEY''
      (sample_world [(''x'', [1])], []) = (Inl res, w', tr) \<and>
    tr = [IcaclsRun [sample_key_path, ''/inheritance:r'', ''/grant:r'', ''me:F''] False] \<and>
    files w' = files (sample_world [(''x'', [1])])"
proof -
  let ?w = "sample_world [(''x'', [1])]" and ?env = "sample_win_env\<lparr>icacls_status := (\<lambda>a. Inr False)\<rparr>"
  have steady: "steady (snd (fill_bytes 8 ?w))" "temp_dir ?env = ''T''" by (simp_all add: sample_win_env_def)
  have free: "files ?w sample_key_path = None" by (simp add: sample_files sample_key_path_def)
  have user: "icacls_args ?env sample_key_path = [sample_key_path, ''/inheritance:r'', ''/grant:r'', ''me:F'']"
    using sample_whoami by (simp add: icacls_args_def whoami_windows_def)
  obtain e w' where run: "run_ssh_windows ?env sample_ssh_args ''KEY'' (?w, []) =
      (Inl e, w', [IcaclsRun (icacls_args ?env sample_key_path) False])"
    using steady free sample_key_path_name sample_key_path_drawn [OF steady(2), of "[(''x'', [1])]"]
    by (auto simp: run_ssh_windows_def bracket_def key_file_create_def split_beta key_file_fill_def on_world_def
        file_create_new_def log_event_def Let_def)
  have "fst (write_all (str_bytes ''KEY'') (fst (new_writer ?w))) = Inr ()"
    by (simp add: new_writer_def sample_world_def write_all_def)
  from windows_key_file_is_removed [OF sample_steady run this] run user show ?thesis by simp
qed

text \<open>A key file is left behind when writing it fails: the guard exists only after the write,
  so that the part of the key written so far stays in the temporary file when the run returns its
  error.\<close>

lemma failed_key_write_leaves_key_file:
  assumes "steady w" and "wplans w = (Refuse k e # plan) # plans"
    and "path = key_file_path env (fst (fill_bytes 8 w))" and "files w path = None"
    and "file_name path \<noteq> None"
    and "icacls_status env (icacls_args env path) = Inr True"
  shows "\<exists>w' tr'. run_ssh_windows env args key (w, tr) = (Inl (Io e), w', tr') \<and>
    (\<exists>f. files w' path = Some f \<and> contents f = take k (str_bytes key))"
proof -
  let ?v = "snd (fill_bytes 8 w)"
  let ?w1 = "set_file path \<lparr>contents = [], mode = create_mode ?v\<rparr> ?v"
  have v: "steady ?v" "files ?v = files w" using assms(1) by simp_all
  have "wplans ?w1 = (Refuse k e # plan) # plans"
    using assms(2) by (simp add: fill_bytes_def set_file_def)
  then have over: "overwrite_file path (str_bytes key) ?w1 =
      (Inl e, set_file path \<lparr>contents = take k (str_bytes key), mode = create_mode ?v\<rparr> (?w1\<lparr>wplans := plans\<rparr>))"
    by (simp add: overwrite_file_def new_writer_def write_all_def)
  have "key_file_fill env key path (?v, tr) = (Inl (Io e),
      set_file path \<lparr>contents = take k (str_bytes key), mode = create_mode ?v\<rparr> (?w1\<lparr>wplans := plans\<rparr>),
      tr @ [IcaclsRun (icacls_args env path) True, KeyWritten path])"
    using v assms(4-6) over
    by (simp add: key_file_fill_def on_world_def file_create_new_def log_event_def file_open_write_def Let_def)
  then show ?thesis
    using assms(3) by (simp add: run_ssh_windows_def bracket_def key_file_create_def split_beta)
qed

text \<open>When \<open>whoami\<close> cannot be run or prints nothing, the key file is not refused: the list
  given to \<open>icacls\<close> grants every user of the machine full control.\<close>

lemma failed_whoami_grants_all_users:
  assumes "whoami_output env = Inl e \<or> whoami_output env = Inr []"
  shows "icacls_args env path =
    [path, ''/inheritance:r'', ''/grant:r'', ''BUILTIN'' @ backslash @ ''Users:F'']"
proof -
  have "strip_tokens toks [] = []" for toks
    by (subst strip_tokens.simps) (auto simp: find_None_iff split: option.splits dest!: find_Some_iff [THEN iffD1])
  then have "trim [] = []" by (simp add: trim_def)
  with assms show ?thesis by (auto simp: icacls_args_def whoami_windows_def fallback_user_def text_of_def)
qed

end
