(* ===== verification/Cry_Endless.thy ===== *)
theory Cry_Endless
  imports Cry_Chunks
begin

text \<open>
  The loops of \<open>src/cipher.rs\<close> over sources that need not end: a terminal, a pipe or a
  device. The finite scripts of \<open>Cry_Io\<close> are the sources that do end; here the loops are
  partial, \<open>None\<close> is a loop that never returns.
\<close>

section \<open>Sources\<close>

codatatype source = Ended | Event (event_of: read_event) source

fun source_of :: "reader \<Rightarrow> source" where
  "source_of [] = Ended"
| "source_of (ev # r) = Event ev (source_of r)"

fun prepend :: "reader \<Rightarrow> source \<Rightarrow> source" where
  "prepend [] s = s"
| "prepend (ev # r) s = Event ev (prepend r s)"

definition read_once_src :: "nat \<Rightarrow> source \<Rightarrow> (io_error + bytes) \<times> source" where
  "read_once_src n s =
    (case s of
       Ended \<Rightarrow> (Inr [], Ended)
     | Event (Fault e) s \<Rightarrow> (Inl e, s)
     | Event (Data bs) s \<Rightarrow>
         if length bs \<le> n then (Inr bs, s) else (Inr (take n bs), Event (Data (drop n bs)) s))"

lemma read_once_src_simps [simp]:
  "read_once_src n Ended = (Inr [], Ended)"
  "read_once_src n (Event (Fault e) s) = (Inl e, s)"
  "read_once_src n (Event (Data bs) s) =
     (if length bs \<le> n then (Inr bs, s) else (Inr (take n bs), Event (Data (drop n bs)) s))"
  by (simp_all add: read_once_src_def)

lemma read_once_source_of: "read_once_src n (source_of r) = map_prod id source_of (read_once n r)"
  by (cases "(n, r)" rule: read_once.cases) auto

section \<open>The loops\<close>

partial_function (option) read_loop_src ::
  "nat \<Rightarrow> bytes \<Rightarrow> source \<Rightarrow> ((io_error + bytes) \<times> source) option" where
  "read_loop_src cap got s =
     (if length got < cap then
        (case read_once_src (cap - length got) s of
           (Inr bs, s') \<Rightarrow> if bs = [] then Some (Inr got, s') else read_loop_src cap (got @ bs) s'
         | (Inl e, s') \<Rightarrow> if e = Interrupted then read_loop_src cap got s' else Some (Inl e, s'))
      else Some (Inr got, s))"

definition read_chunk_src :: "nat \<Rightarrow> source \<Rightarrow> ((cry_error + bytes) \<times> source) option" where
  "read_chunk_src cap s = map_option (map_err Io) (read_loop_src cap [] s)"

partial_function (option) encrypt_loop_src ::
  "crypto \<Rightarrow> bytes \<Rightarrow> bytes \<Rightarrow> algorithm \<Rightarrow> bytes \<Rightarrow> u64 \<Rightarrow> source \<Rightarrow> writer \<Rightarrow>
     ((cry_error + u64) \<times> source \<times> writer) option" where
  "encrypt_loop_src P key base_nonce algo aad chunk_index src writer =
    (case read_chunk_src CHUNK_SIZE src of
       None \<Rightarrow> None
     | Some (Inl e, src) \<Rightarrow> Some (Inl e, src, writer)
     | Some (Inr buf, src) \<Rightarrow>
         if buf = [] then Some (Inr chunk_index, src, writer) else
         (case encrypt_chunk P buf key (chunk_nonce base_nonce chunk_index) algo
                 (chunk_aad aad chunk_index) of
            Inl e \<Rightarrow> Some (Inl e, src, writer)
          | Inr ct \<Rightarrow>
              (case write_all (u32_to_be_bytes (word_of_nat (length ct))) writer of
                 (Inl e, writer) \<Rightarrow> Some (Inl (Io e), src, writer)
               | (Inr _, writer) \<Rightarrow>
                   (case write_all ct writer of
                      (Inl e, writer) \<Rightarrow> Some (Inl (Io e), src, writer)
                    | (Inr _, writer) \<Rightarrow>
                        if length buf < CHUNK_SIZE then Some (Inr (chunk_index + 1), src, writer)
                        else encrypt_loop_src P key base_nonce algo aad (chunk_index + 1)
                               src writer))))"

definition encrypt_chunks_src ::
  "crypto \<Rightarrow> source \<Rightarrow> writer \<Rightarrow> bytes \<Rightarrow> bytes \<Rightarrow> algorithm \<Rightarrow> bytes \<Rightarrow> u64 \<Rightarrow>
     ((cry_error + u64) \<times> source \<times> writer) option" where
  "encrypt_chunks_src P src writer key base_nonce algo aad total_chunks =
     encrypt_loop_src P key base_nonce algo aad 0 src writer"

declare read_loop_src.simps [simp del] encrypt_loop_src.simps [simp del]

section \<open>Sources that end\<close>

text \<open>On a finite script the partial loops return what the loops over readers return.\<close>

lemma read_loop_source_of:
  "read_loop_src cap got (source_of r) = Some (map_prod id source_of (read_loop cap got r))"
proof (induction cap got r rule: read_loop.induct)
  case (1 cap got r)
  show ?case
  proof (cases "length got < cap")
    case False
    then show ?thesis by (simp add: read_loop_src.simps [of cap got] read_loop.simps [of cap got r])
  next
    case True
    obtain res r1 where once: "read_once (cap - length got) r = (res, r1)" by fastforce
    with True "1.IH"(1) [OF True once [symmetric]] "1.IH"(2) [OF True once [symmetric]] show ?thesis
      by (cases res) (simp_all add: read_loop_src.simps [of cap got "source_of r"]
          read_loop.simps [of cap got r] read_once_source_of)
  qed
qed

lemma read_chunk_source_of:
  "read_chunk_src cap (source_of r) = Some (map_prod id source_of (read_chunk cap r))"
  by (cases "read_loop cap [] r"; cases "fst (read_loop cap [] r)")
    (auto simp: read_chunk_src_def read_chunk_def read_loop_source_of)

lemma encrypt_loop_source_of:
  "encrypt_loop_src P key base algo aad i (source_of r) wr =
     Some (map_prod id (map_prod source_of id) (encrypt_loop P key base algo aad i r wr))"
proof (induction P key base algo aad i r wr rule: encrypt_loop.induct)
  case (1 P key base algo aad i r wr)
  obtain res r1 where rd: "read_chunk CHUNK_SIZE r = (res, r1)" by fastforce
  show ?case
  proof (cases res)
    case (Inl e)
    with rd show ?thesis
      by (simp add: encrypt_loop_src.simps [of P key base algo aad i] encrypt_loop.simps [of P key base algo aad i r]
          read_chunk_source_of)
  next
    case (Inr buf)
    show ?thesis
    proof (cases "buf = []")
      case True
      with rd Inr show ?thesis
        by (simp add: encrypt_loop_src.simps [of P key base algo aad i] encrypt_loop.simps [of P key base algo aad i r]
            read_chunk_source_of)
    next
      case False
      note IH = "1.IH" [OF rd [symmetric] Inr False]
      from rd Inr False show ?thesis
        by (simp add: encrypt_loop_src.simps [of P key base algo aad i] encrypt_loop.simps [of P key base algo aad i r]
            read_chunk_source_of IH split: sum.splits prod.splits)
    qed
  qed
qed

section \<open>Sources that do not end\<close>

text \<open>Every read is interrupted; and every read delivers something.\<close>

coinductive interrupted_forever :: "source \<Rightarrow> bool" where
  again: "interrupted_forever s \<Longrightarrow> interrupted_forever (Event (Fault Interrupted) s)"

coinductive endless :: "source \<Rightarrow> bool" where
  more: "bs \<noteq> [] \<Longrightarrow> endless s \<Longrightarrow> endless (Event (Data bs) s)"

inductive_simps interrupted_forever_simps [simp]:
  "interrupted_forever Ended" "interrupted_forever (Event ev s)"

inductive_simps endless_simps [simp]:
  "endless Ended" "endless (Event ev s)"

lemma interrupted_cases:
  obtains "interrupted_forever s"
  | k t where "s = prepend (replicate k (Fault Interrupted)) t" and "\<And>u. t \<noteq> Event (Fault Interrupted) u"
proof (cases "\<exists>k t. s = prepend (replicate k (Fault Interrupted)) t \<and> (\<forall>u. t \<noteq> Event (Fault Interrupted) u)")
  case False
  then have "interrupted_forever s"
  proof (coinduction arbitrary: s)
    case interrupted_forever
    have "\<exists>u. s = Event (Fault Interrupted) u"
    proof (rule ccontr)
      assume "\<nexists>u. s = Event (Fault Interrupted) u"
      then have "s = prepend (replicate 0 (Fault Interrupted)) s \<and> (\<forall>u. s \<noteq> Event (Fault Interrupted) u)" by simp
      with interrupted_forever show False by blast
    qed
    then obtain u where u: "s = Event (Fault Interrupted) u" by blast
    have "\<nexists>k t. u = prepend (replicate k (Fault Interrupted)) t \<and> (\<forall>v. t \<noteq> Event (Fault Interrupted) v)"
    proof (rule notI, elim exE conjE)
      fix k t assume "u = prepend (replicate k (Fault Interrupted)) t" "\<forall>v. t \<noteq> Event (Fault Interrupted) v"
      then have "s = prepend (replicate (Suc k) (Fault Interrupted)) t \<and> (\<forall>v. t \<noteq> Event (Fault Interrupted) v)"
        by (simp add: u)
      with interrupted_forever show False by blast
    qed
    with u show ?case by blast
  qed
  then show ?thesis by (rule that)
qed (use that in blast)

lemma read_loop_src_skip:
  "length got < cap \<Longrightarrow>
     read_loop_src cap got (prepend (replicate k (Fault Interrupted)) t) = read_loop_src cap got t"
  by (induction k) (simp_all add: read_loop_src.simps [of cap got "Event _ _"])

lemma read_loop_src_hangs:
  assumes "interrupted_forever s" and "length got < cap"
  shows "read_loop_src cap got s = None"
proof (rule ccontr)
  assume "read_loop_src cap got s \<noteq> None"
  then obtain r where "read_loop_src cap got s = Some r" by blast
  then have "\<not> (interrupted_forever s \<and> length got < cap)"
  proof (rule read_loop_src.raw_induct [where P = "\<lambda>cap got s r. \<not> (interrupted_forever s \<and> length got < cap)", rotated])
    fix rec :: "nat \<Rightarrow> bytes \<Rightarrow> source \<Rightarrow> ((io_error + bytes) \<times> source) option" and cap got s r
    assume IH: "\<And>cap got s r. rec cap got s = Some r \<Longrightarrow> \<not> (interrupted_forever s \<and> length got < cap)"
      and step: "(if length got < cap then
        (case read_once_src (cap - length got) s of
           (Inl e, s') \<Rightarrow> if e = Interrupted then rec cap got s' else Some (Inl e, s')
         | (Inr bs, s') \<Rightarrow> if bs = [] then Some (Inr got, s') else rec cap (got @ bs) s')
      else Some (Inr got, s)) = Some r"
    show "\<not> (interrupted_forever s \<and> length got < cap)"
    proof
      assume *: "interrupted_forever s \<and> length got < cap"
      then obtain u where "s = Event (Fault Interrupted) u" "interrupted_forever u"
        by (auto elim: interrupted_forever.cases)
      with * step IH [of cap got u r] show False by simp
    qed
  qed
  with assms show False by blast
qed

lemma read_loop_src_None:
  assumes "length got < cap"
  shows "read_loop_src cap got s = None \<longleftrightarrow>
    (\<exists>r t. s = prepend r t \<and> clean r \<and> length got + length (pending r) < cap \<and> interrupted_forever t)"
proof
  assume "read_loop_src cap got s = None"
  then show "\<exists>r t. s = prepend r t \<and> clean r \<and> length got + length (pending r) < cap \<and> interrupted_forever t"
    using assms
  proof (induction "cap - length got" arbitrary: got s rule: less_induct)
    case less
    show ?case
    proof (cases s rule: interrupted_cases)
      case 1
      then show ?thesis using less.prems(2) by (intro exI [of _ "[]"] exI [of _ s]) simp
    next
      case (2 k t)
      have none: "read_loop_src cap got t = None"
        using less.prems 2(1) by (simp add: read_loop_src_skip)
      then obtain bs u where t: "t = Event (Data bs) u" "bs \<noteq> []" "length bs < cap - length got"
        and rest: "read_loop_src cap (got @ bs) u = None"
        using less.prems(2) 2(2)
        by (cases t; cases "event_of t")
          (auto simp: read_loop_src.simps [of cap got "Event _ _"] read_loop_src.simps [of cap got Ended]
            read_loop_src.simps [of cap "got @ _"] split: if_splits)
      have "cap - length (got @ bs) < cap - length got" "length (got @ bs) < cap"
        using t(2,3) by (cases bs; simp)+
      from less.hyps [OF this(1) rest this(2)] obtain r v where
        "u = prepend r v" "clean r" "length (got @ bs) + length (pending r) < cap" "interrupted_forever v"
        by blast
      moreover have "prepend (replicate k (Fault Interrupted) @ Data bs # r) v =
          prepend (replicate k (Fault Interrupted)) (Event (Data bs) (prepend r v))"
        by (induction k) auto
      moreover have "clean (replicate k (Fault Interrupted))" "pending (replicate k (Fault Interrupted)) = []"
        by (induction k) auto
      ultimately show ?thesis
        using 2(1) t by (intro exI [of _ "replicate k (Fault Interrupted) @ Data bs # r"] exI [of _ v]) simp
    qed
  qed
next
  assume "\<exists>r t. s = prepend r t \<and> clean r \<and> length got + length (pending r) < cap \<and> interrupted_forever t"
  then obtain r t where "s = prepend r t" "clean r" "length got + length (pending r) < cap" "interrupted_forever t"
    by blast
  then show "read_loop_src cap got s = None"
  proof (induction r arbitrary: got s)
    case Nil
    then show ?case by (simp add: read_loop_src_hangs)
  next
    case (Cons ev r)
    then show ?case
      by (cases ev) (auto simp: read_loop_src.simps [of cap got "Event _ _"])
  qed
qed

section \<open>Encrypting without end\<close>

lemma read_loop_src_endless:
  assumes "endless s" and "length got \<le> cap"
  shows "\<exists>bs u. read_loop_src cap got s = Some (Inr bs, u) \<and> length bs = cap \<and> endless u"
  using assms
proof (induction "cap - length got" arbitrary: got s rule: less_induct)
  case less
  show ?case
  proof (cases "length got < cap")
    case False
    with less.prems show ?thesis by (simp add: read_loop_src.simps [of cap got s])
  next
    case True
    obtain bs t where s: "s = Event (Data bs) t" "bs \<noteq> []" "endless t"
      using less.prems(1) by (cases rule: endless.cases)
    show ?thesis
    proof (cases "length bs \<le> cap - length got")
      case True
      then have "cap - length (got @ bs) < cap - length got" "length (got @ bs) \<le> cap"
        using \<open>length got < cap\<close> s(2) by (cases bs; simp)+
      from less.hyps [OF this(1) s(3) this(2)] True s \<open>length got < cap\<close> show ?thesis
        by (simp add: read_loop_src.simps [of cap got "Event _ _"])
    next
      case False
      let ?n = "cap - length got"
      have "read_loop_src cap got s = read_loop_src cap (got @ take ?n bs) (Event (Data (drop ?n bs)) t)"
        using False s \<open>length got < cap\<close> by (simp add: read_loop_src.simps [of cap got "Event _ _"])
      also have "\<dots> = Some (Inr (got @ take ?n bs), Event (Data (drop ?n bs)) t)"
        using False \<open>length got < cap\<close> by (simp add: read_loop_src.simps [of cap "got @ _"])
      finally show ?thesis using False s \<open>length got < cap\<close> by simp
    qed
  qed
qed

lemma encrypt_loop_src_endless:
  assumes P: "ciphers_lawful P" "chunk_args key base aad"
    and "endless s" "willing wr"
  shows "encrypt_loop_src P key base algo aad i s wr = None"
proof (rule ccontr)
  assume "encrypt_loop_src P key base algo aad i s wr \<noteq> None"
  then obtain r where "encrypt_loop_src P key base algo aad i s wr = Some r" by blast
  then have "(\<lambda>(((((((P, key), base), algo), aad), i), s), wr) r. ciphers_lawful P \<and> chunk_args key base aad \<longrightarrow>
    \<not> (endless s \<and> willing wr)) (((((((P, key), base), algo), aad), i), s), wr) r"
  proof (rule encrypt_loop_src.raw_induct [where Pa = "\<lambda>(((((((P, key), base), algo), aad), i), s), wr) r.
      ciphers_lawful P \<and> chunk_args key base aad \<longrightarrow> \<not> (endless s \<and> willing wr)", rotated], goal_cases)
    case (1 rec P key base algo aad i s wr r)
    show ?case
      unfolding case_prod_conv
    proof (intro impI notI)
      assume P: "ciphers_lawful P \<and> chunk_args key base aad" and inf: "endless s \<and> willing wr"
      obtain bs u where rd: "read_chunk_src CHUNK_SIZE s = Some (Inr bs, u)" "length bs = CHUNK_SIZE" "endless u"
        using read_loop_src_endless [of s "[]" CHUNK_SIZE] inf by (auto simp: read_chunk_src_def)
      obtain ct where ct: "encrypt_chunk P bs key (chunk_nonce base i) algo (chunk_aad aad i) = Inr ct"
        using encrypt_chunk_lawful [of P key "chunk_nonce base i" bs "chunk_aad aad i" algo] P rd(2)
        by (auto simp: chunk_args_def KEY_LEN_def)
      obtain w1 w2 where "write_all (u32_to_be_bytes (word_of_nat (length ct))) wr = (Inr (), w1)"
        "write_all ct w1 = (Inr (), w2)" "willing w2"
        using inf write_all_willing by metis
      moreover have "bs \<noteq> []" using rd(2) CHUNK_SIZE_pos by auto
      ultimately have "rec P key base algo aad (i + 1) u w2 = Some r"
        using 1(2) rd ct by simp
      from 1(1) [OF this, unfolded case_prod_conv] P rd(3) \<open>willing w2\<close> show False by blast
    qed
  qed
  with assms show False by simp
qed

section \<open>Properties\<close>

text \<open>C35. The only way to hang while reading: \<open>read_chunk\<close> returns on every source, finite or
  not, except when, before the buffer is full, every further \<open>read\<close> is interrupted; and on a
  source that ends it returns what the model over finite scripts returns.\<close>

theorem read_chunk_hangs_only_when_interrupted_forever:
  assumes "0 < cap"
  shows "(read_chunk_src cap s = None \<longleftrightarrow>
      (\<exists>r t. s = prepend r t \<and> clean r \<and> length (pending r) < cap \<and> interrupted_forever t)) \<and>
    read_chunk_src cap (source_of r) = Some (map_prod id source_of (read_chunk cap r))"
  using read_loop_src_None [of "[]" cap s] assms
  by (simp add: read_chunk_src_def read_chunk_source_of [unfolded read_chunk_src_def])

primcorec interrupts :: source where
  "interrupts = Event (Fault Interrupted) interrupts"

lemma interrupts_forever: "interrupted_forever interrupts"
  by (coinduction rule: interrupted_forever.coinduct) (metis interrupts.code)

theorem read_chunk_hangs_only_when_interrupted_forever_witness:
  "read_chunk_src 3 (Event (Data [1, 2]) interrupts) = None \<and>
   read_chunk_src 2 (Event (Data [1, 2]) interrupts) \<noteq> None"
proof -
  have "\<exists>r t. Event (Data [1, 2]) interrupts = prepend r t \<and> clean r \<and> length (pending r) < 3 \<and>
      interrupted_forever t"
    by (intro exI [of _ "[Data [1, 2]]"] exI [of _ interrupts]) (simp add: interrupts_forever)
  then have "read_chunk_src 3 (Event (Data [1, 2]) interrupts) = None"
    using read_chunk_hangs_only_when_interrupted_forever [of 3 "Event (Data [1, 2]) interrupts"] by simp
  moreover have "read_loop_src 2 [1, 2] interrupts = Some (Inr [1, 2], interrupts)"
    by (simp add: read_loop_src.simps)
  then have "read_chunk_src 2 (Event (Data [1, 2]) interrupts) \<noteq> None"
    by (simp add: read_chunk_src_def read_loop_src.simps [of 2 "[]"])
  ultimately show ?thesis by blast
qed

text \<open>C36. Encryption stops with its input and not with the number of chunks it has committed to:
  on a source that ends \<open>encrypt_chunks\<close> returns, and returns what the model over finite
  scripts returns; on a source that always delivers more, as a device may whose length reads as
  zero, it never returns while the output takes what is written.\<close>

theorem encryption_runs_as_long_as_its_input:
  assumes "ciphers_lawful P" "chunk_args key base aad" "endless s" "willing wr"
  shows "encrypt_chunks_src P (source_of r) wr key base algo aad count =
      Some (map_prod id (map_prod source_of id) (encrypt_chunks P r wr key base algo aad count)) \<and>
    encrypt_chunks_src P s wr key base algo aad count = None"
  using assms by (simp add: encrypt_chunks_src_def encrypt_chunks_def encrypt_loop_source_of encrypt_loop_src_endless)

primcorec zeros :: source where
  "zeros = Event (Data [0]) zeros"

lemma zeros_endless: "endless zeros"
  by (coinduction rule: endless.coinduct) (metis zeros.code list.distinct(1))

theorem encryption_runs_as_long_as_its_input_witness:
  "encrypt_chunks_src demo_crypto zeros open_sink sample_key sample_nonce Aes256Gcm sample_aad 0 = None"
  using encryption_runs_as_long_as_its_input [OF demo_ciphers_lawful sample_args zeros_endless open_sink_simps(2)]
  by blast

end
