(* ===== verification/Cry_Sizes.thy ===== *)
theory Cry_Sizes
  imports Cry_Cli
begin

text \<open>
  The array lengths of the Rust types. In the model keys, nonces and signatures are byte lists;
  the crates take arrays, and converting a slice of another length panics. Here the primitives of
  \<open>P\<close> are replaced by arbitrary ones of \<open>R\<close> wherever a length is wrong, and every
  operation is shown to be the same: no such call is ever made.
\<close>

section \<open>Primitives on their lengths\<close>

definition on_sizes :: "crypto \<Rightarrow> crypto \<Rightarrow> crypto" where
  "on_sizes P R = P\<lparr>
     aes256gcm_encrypt := (\<lambda>k n m a. if length k = 32 \<and> length n = 12
       then aes256gcm_encrypt P k n m a else aes256gcm_encrypt R k n m a),
     aes256gcm_decrypt := (\<lambda>k n m a. if length k = 32 \<and> length n = 12
       then aes256gcm_decrypt P k n m a else aes256gcm_decrypt R k n m a),
     chacha20poly1305_encrypt := (\<lambda>k n m a. if length k = 32 \<and> length n = 12
       then chacha20poly1305_encrypt P k n m a else chacha20poly1305_encrypt R k n m a),
     chacha20poly1305_decrypt := (\<lambda>k n m a. if length k = 32 \<and> length n = 12
       then chacha20poly1305_decrypt P k n m a else chacha20poly1305_decrypt R k n m a),
     ed25519_public := (\<lambda>s. if length s = 32 then ed25519_public P s else ed25519_public R s),
     ed25519_sign := (\<lambda>s m. if length s = 32 then ed25519_sign P s m else ed25519_sign R s m),
     ed25519_point := (\<lambda>b. if length b = 32 then ed25519_point P b else ed25519_point R b),
     ed25519_verify := (\<lambda>k m s. if length s = 64 then ed25519_verify P k m s else ed25519_verify R k m s),
     ssh_keypair_from_bytes := (\<lambda>b. if length b = 64 then ssh_keypair_from_bytes P b
       else ssh_keypair_from_bytes R b)\<rparr>"

named_theorems sized \<open>operations do not see calls of a wrong length\<close>

lemma on_sizes_fields [simp]:
  "params_new (on_sizes P R) = params_new P"
  "hash_password_into (on_sizes P R) = hash_password_into P"
  "hmac_sha256 (on_sizes P R) = hmac_sha256 P"
  "sha256 (on_sizes P R) = sha256 P"
  "base64_encode (on_sizes P R) = base64_encode P"
  "hex_encode (on_sizes P R) = hex_encode P"
  "ssh_private_key_new (on_sizes P R) = ssh_private_key_new P"
  "ssh_key_encrypt (on_sizes P R) = ssh_key_encrypt P"
  "ssh_key_to_openssh (on_sizes P R) = ssh_key_to_openssh P"
  "rsa_generate (on_sizes P R) = rsa_generate P"
  "rsa_private_pem (on_sizes P R) = rsa_private_pem P"
  "rsa_public_pem (on_sizes P R) = rsa_public_pem P"
  by (simp_all add: on_sizes_def)

lemma on_sizes_ciphers [simp]:
  "length k = 32 \<Longrightarrow> length n = 12 \<Longrightarrow>
     aes256gcm_encrypt (on_sizes P R) k n m a = aes256gcm_encrypt P k n m a"
  "length k = 32 \<Longrightarrow> length n = 12 \<Longrightarrow>
     aes256gcm_decrypt (on_sizes P R) k n m a = aes256gcm_decrypt P k n m a"
  "length k = 32 \<Longrightarrow> length n = 12 \<Longrightarrow>
     chacha20poly1305_encrypt (on_sizes P R) k n m a = chacha20poly1305_encrypt P k n m a"
  "length k = 32 \<Longrightarrow> length n = 12 \<Longrightarrow>
     chacha20poly1305_decrypt (on_sizes P R) k n m a = chacha20poly1305_decrypt P k n m a"
  by (simp_all add: on_sizes_def)

lemma on_sizes_ed25519 [simp]:
  "length s = 32 \<Longrightarrow> ed25519_public (on_sizes P R) s = ed25519_public P s"
  "length s = 32 \<Longrightarrow> ed25519_sign (on_sizes P R) s m = ed25519_sign P s m"
  "length b = 32 \<Longrightarrow> ed25519_point (on_sizes P R) b = ed25519_point P b"
  "length g = 64 \<Longrightarrow> ed25519_verify (on_sizes P R) k m g = ed25519_verify P k m g"
  "length b = 64 \<Longrightarrow> ssh_keypair_from_bytes (on_sizes P R) b = ssh_keypair_from_bytes P b"
  by (simp_all add: on_sizes_def)

lemma and_then_cong_Inr:
  "(\<And>x s. m = (Inr x, s) \<Longrightarrow> k x s = k' x s) \<Longrightarrow> and_then m k = and_then m k'"
  by (auto simp: and_then_def split: prod.splits sum.splits)

section \<open>File encryption\<close>

lemma sized_header [sized]:
  "derive_key (on_sizes P R) = derive_key P"
  "header_aad (on_sizes P R) = header_aad P"
  "header_write (on_sizes P R) = header_write P"
  "header_read (on_sizes P R) = header_read P"
proof -
  show "derive_key (on_sizes P R) = derive_key P"
    by (intro ext) (simp add: derive_key_def split: sum.splits)
  show "header_aad (on_sizes P R) = header_aad P"
    by (intro ext) (simp add: header_aad_def)
  show "header_write (on_sizes P R) = header_write P"
    by (intro ext) (simp add: header_write_def compute_hmac_def derive_hmac_subkey_def)
  show "header_read (on_sizes P R) = header_read P"
    by (intro ext) (simp add: header_read_def derive_hmac_subkey_def cong: if_cong)
qed

lemma sized_chunk [sized]:
  "length key = 32 \<Longrightarrow> encrypt_chunk (on_sizes P R) m key (chunk_nonce base i) algo aad =
     encrypt_chunk P m key (chunk_nonce base i) algo aad"
  "length key = 32 \<Longrightarrow> decrypt_chunk (on_sizes P R) m key (chunk_nonce base i) algo aad =
     decrypt_chunk P m key (chunk_nonce base i) algo aad"
  by (simp_all add: encrypt_chunk_def decrypt_chunk_def split: algorithm.splits)

lemma sized_encrypt_loop [sized]:
  "length key = 32 \<Longrightarrow> encrypt_loop (on_sizes P R) key base algo aad i r w = encrypt_loop P key base algo aad i r w"
proof (induction P key base algo aad i r w rule: encrypt_loop.induct)
  case (1 P key base algo aad i r w)
  obtain res r1 where rd: "read_chunk CHUNK_SIZE r = (res, r1)" by fastforce
  show ?case
  proof (cases res)
    case (Inl e)
    with rd show ?thesis by (simp add: encrypt_loop.simps [of _ key base algo aad i r])
  next
    case (Inr buf)
    show ?thesis
    proof (cases "buf = []")
      case True
      with rd Inr show ?thesis by (simp add: encrypt_loop.simps [of _ key base algo aad i r])
    next
      case False
      from rd Inr False "1.prems" "1.IH" [OF rd [symmetric] Inr False] show ?thesis
        by (simp add: encrypt_loop.simps [of _ key base algo aad i r] sized split: sum.splits prod.splits)
    qed
  qed
qed

lemma sized_decrypt_loop [sized]:
  "length key = 32 \<Longrightarrow> decrypt_loop (on_sizes P R) key base algo aad i r w = decrypt_loop P key base algo aad i r w"
proof (induction P key base algo aad i r w rule: decrypt_loop.induct)
  case (1 P key base algo aad i r w)
  obtain res r1 where rd: "read_exact 4 r = (res, r1)" by fastforce
  show ?case
  proof (cases res)
    case (Inl e)
    with rd show ?thesis by (simp add: decrypt_loop.simps [of _ key base algo aad i r])
  next
    case (Inr len_buf)
    let ?n = "unat (u32_from_be_bytes len_buf)"
    obtain res2 r2 where rd2: "read_exact ?n r1 = (res2, r2)" by fastforce
    show ?thesis
    proof (cases "MAX_CHUNK_WIRE_LEN < ?n \<or> (\<exists>e. res2 = Inl e)")
      case True
      with rd rd2 Inr show ?thesis by (auto simp: decrypt_loop.simps [of _ key base algo aad i r] Let_def)
    next
      case False
      then obtain ct where ct: "res2 = Inr ct" by (cases res2) auto
      from False have n: "\<not> MAX_CHUNK_WIRE_LEN < ?n" by blast
      from rd rd2 Inr n ct "1.prems" "1.IH" [OF rd [symmetric] Inr refl n rd2 [symmetric] ct] show ?thesis
        by (simp add: decrypt_loop.simps [of _ key base algo aad i r] sized Let_def split: sum.splits prod.splits)
    qed
  qed
qed

lemma sized_streams [sized]:
  "length key = 32 \<Longrightarrow> encrypt_stream (on_sizes P R) h key aad r w = encrypt_stream P h key aad r w"
  "length key = 32 \<Longrightarrow> decrypt_stream (on_sizes P R) h key aad r w = decrypt_stream P h key aad r w"
  by (simp_all add: encrypt_stream_def decrypt_stream_def encrypt_chunks_def decrypt_chunks_def sized)

lemma sized_to_tmp [sized]:
  "length key = 32 \<Longrightarrow> encrypt_to_tmp (on_sizes P R) p t h key aad w = encrypt_to_tmp P p t h key aad w"
  "length key = 32 \<Longrightarrow> decrypt_to_tmp (on_sizes P R) c t h key aad r w = decrypt_to_tmp P c t h key aad r w"
proof -
  assume key: "length key = 32"
  have "encrypt_stream (on_sizes P R) h key aad r = encrypt_stream P h key aad r"
    "decrypt_stream (on_sizes P R) h key aad r = decrypt_stream P h key aad r" for r
    using key by (intro ext; simp add: sized)+
  then show "encrypt_to_tmp (on_sizes P R) p t h key aad w = encrypt_to_tmp P p t h key aad w"
    "decrypt_to_tmp (on_sizes P R) c t h key aad r w = decrypt_to_tmp P c t h key aad r w"
    by (simp_all add: encrypt_to_tmp_def decrypt_to_tmp_def)
qed

lemma sized_with_key [sized]:
  "length key = 32 \<Longrightarrow> encrypt_with_key (on_sizes P R) p c key h w = encrypt_with_key P p c key h w"
  "length key = 32 \<Longrightarrow> decrypt_with_key (on_sizes P R) p c key raw r w = decrypt_with_key P p c key raw r w"
  by (simp_all add: encrypt_with_key_def decrypt_with_key_def sized)

lemma sized_files [sized]:
  assumes "argon2_sized P"
  shows "encrypt_file (on_sizes P R) p c pass algo force w = encrypt_file P p c pass algo force w"
    and "decrypt_file (on_sizes P R) p c pass force w = decrypt_file P p c pass force w"
proof -
  have key: "derive_key P pass salt = Inr key \<Longrightarrow> length key = 32" for salt key
    using derive_key_length [OF assms] by (simp add: KEY_LEN_def)
  show "encrypt_file (on_sizes P R) p c pass algo force w = encrypt_file P p c pass algo force w"
    "decrypt_file (on_sizes P R) p c pass force w = decrypt_file P p c pass force w"
    unfolding encrypt_file_def decrypt_file_def Let_def sized split_beta
    by (intro and_then_cong_Inr; auto simp: sized key dest!: key)+
qed

section \<open>Identities and key files\<close>

definition keys_sized :: "crypto \<Rightarrow> bool" where
  "keys_sized P \<longleftrightarrow> argon2_sized P \<and> (\<forall>s. length s = 32 \<longrightarrow> length (ed25519_public P s) = 32)"

lemma lawful_keys_sized: "argon2_sized P \<Longrightarrow> ed25519_lawful P \<Longrightarrow> keys_sized P"
  by (simp add: keys_sized_def ed25519_lawful_def)

lemma identity_sized:
  "keys_sized P \<Longrightarrow> identity_derive P pw ns v sub = Inr i \<Longrightarrow> length (signing_key i) = 32"
  by (metis keys_sized_def identity_derive_length)

lemma sized_derivation [sized]:
  "derive_salt (on_sizes P R) = derive_salt P"
  "identity_derive (on_sizes P R) = identity_derive P"
  "content_digest (on_sizes P R) = content_digest P"
  "derive_aes_key (on_sizes P R) = derive_aes_key P"
  "write_private_key (on_sizes P R) = write_private_key P"
  "write_public_key (on_sizes P R) = write_public_key P"
proof -
  show salt: "derive_salt (on_sizes P R) = derive_salt P"
    by (intro ext) (simp add: derive_salt_def)
  show "identity_derive (on_sizes P R) = identity_derive P"
    by (intro ext) (simp add: identity_derive_def salt split: sum.splits)
  show "content_digest (on_sizes P R) = content_digest P"
    by (intro ext) (simp add: content_digest_def)
  show "derive_aes_key (on_sizes P R) = derive_aes_key P"
    by (intro ext) (simp add: derive_aes_key_def split: sum.splits)
  show "write_private_key (on_sizes P R) = write_private_key P"
    by (intro ext) (simp add: write_private_key_def)
  show "write_public_key (on_sizes P R) = write_public_key P"
    by (intro ext) (simp add: write_public_key_def)
qed

lemma sized_identity [sized]:
  assumes "length (signing_key i) = 32"
  shows "verifying_key (on_sizes P R) i = verifying_key P i"
    and "public_key_hex (on_sizes P R) i = public_key_hex P i"
    and "sign_content (on_sizes P R) i content = sign_content P i content"
    and "ssh_authorized_keys_line (on_sizes P R) i comment = ssh_authorized_keys_line P i comment"
    and "to_keypair_bytes (on_sizes P R) i = to_keypair_bytes P i"
  using assms
  by (simp_all add: verifying_key_def public_key_hex_def sign_content_def ssh_authorized_keys_line_def
      to_keypair_bytes_def sized)

lemma sized_openssh [sized]:
  assumes "keys_sized P" and "length (signing_key i) = 32"
  shows "openssh_private_key (on_sizes P R) rng i pass comment = openssh_private_key P rng i pass comment"
    and "encode_openssh_private_key (on_sizes P R) i comment = encode_openssh_private_key P i comment"
proof -
  have "length (to_keypair_bytes P i) = 64"
    using assms by (simp add: to_keypair_bytes_def verifying_key_def keys_sized_def)
  then show "openssh_private_key (on_sizes P R) rng i pass comment = openssh_private_key P rng i pass comment"
    "encode_openssh_private_key (on_sizes P R) i comment = encode_openssh_private_key P i comment"
    using assms(2)
    by (simp_all add: openssh_private_key_def encode_openssh_private_key_def sized split: sum.splits)
qed

lemma sized_verify [sized]:
  "verify_content_signature (on_sizes P R) pub content sig = verify_content_signature P pub content sig"
  by (simp add: verify_content_signature_def parse_hex_def sized split: outcome.splits sum.splits)

lemma sized_write_identity_files [sized]:
  assumes "keys_sized P" and "length (signing_key i) = 32"
  shows "write_identity_files (on_sizes P R) priv pub i openssh pass comment force w =
    write_identity_files P priv pub i openssh pass comment force w"
proof -
  have "write_openssh_private_key (on_sizes P R) p i pw c f v = write_openssh_private_key P p i pw c f v"
    for p pw c f v
    using assms by (simp add: write_openssh_private_key_def sized cong: if_cong)
  then show ?thesis
    using assms by (simp add: write_identity_files_def sized cong: if_cong option.case_cong)
qed

lemma sized_keygen [sized]:
  assumes "keys_sized P"
  shows "keygen (on_sizes P R) args pass w = keygen P args pass w"
proof (cases "kg_algo args")
  case Ed25519
  show ?thesis using assms unfolding keygen_Ed25519 [OF Ed25519] by (simp add: sized)
next
  case Rsa
  then show ?thesis by (simp add: keygen_def)
next
  case AesKey
  show ?thesis unfolding keygen_AesKey [OF AesKey] by (simp add: sized)
qed

lemma sized_derive [sized]:
  assumes "keys_sized P"
  shows "derive (on_sizes P R) args passphrase pass w = derive P args passphrase pass w"
proof (cases "da_algo args")
  case Ed25519
  have "identity_derive P pw ns v sub = Inr i \<Longrightarrow> length (signing_key i) = 32" for pw ns v sub i
    using assms by (rule identity_sized)
  then show ?thesis
    unfolding derive_Ed25519 [OF Ed25519] sized
    by (intro arg_cong [where f = "map_err Failed"] and_then_cong_Inr) (auto simp: sized assms)
next
  case Rsa
  then show ?thesis by (simp add: derive_def)
next
  case AesKey
  then show ?thesis by (simp add: derive_def sized)
qed

section \<open>Every command\<close>

lemma sized_sign_verify [sized]:
  "keys_sized P \<Longrightarrow> run_sign (on_sizes P R) a w = run_sign P a w"
  "run_verify (on_sizes P R) v w = run_verify P v w"
proof -
  assume P: "keys_sized P"
  have "identity_derive P pw ns v sub = Inr i \<Longrightarrow> length (signing_key i) = 32" for pw ns v sub i
    using P by (rule identity_sized)
  then show "run_sign (on_sizes P R) a w = run_sign P a w"
    unfolding run_sign_def Let_def sized
    by (intro and_then_cong_Inr) (auto simp: sized)
next
  show "run_verify (on_sizes P R) v w = run_verify P v w"
    by (simp add: run_verify_def sized)
qed

lemma sized_ssh [sized]:
  assumes "keys_sized P"
  shows "run_ssh (on_sizes P R) env args pass tr = run_ssh P env args pass tr"
proof -
  have "identity_derive P pw ns v sub = Inr i \<Longrightarrow> length (signing_key i) = 32" for pw ns v sub i
    using assms by (rule identity_sized)
  then show ?thesis
    unfolding run_ssh_def Let_def sized
    by (intro and_then_cong_Inr) (auto simp: sized assms)
qed

lemma sized_bench [sized]:
  assumes "keys_sized P"
  shows "run_bench (on_sizes P R) clock args s = run_bench P clock args s"
proof -
  have alg: "benchmark_algorithm (on_sizes P R) clock algo plain key wu sa t =
      benchmark_algorithm P clock algo plain key wu sa t" if "length key = 32" for algo plain key wu sa t
  proof -
    have run: "single_run (on_sizes P R) clock algo plain key (fst (fill_bytes 12 (fst t))) aad =
        single_run P clock algo plain key (fst (fill_bytes 12 (fst t))) aad" for aad
      using that by (intro ext, cases algo) (simp_all add: single_run_def cong: option.case_cong)
    show ?thesis unfolding benchmark_algorithm_def split_beta Let_def run on_sizes_fields by (rule refl)
  qed
  have key: "derive_key P pass salt = Inr key \<Longrightarrow> length key = 32" for pass salt key
    using derive_key_length assms by (metis keys_sized_def KEY_LEN_def)
  have kdf: "kdf_loop (on_sizes P R) pass salt n = kdf_loop P pass salt n" for pass salt n
    by (induction n) (simp_all add: sized split: sum.splits)
  show ?thesis
    by (auto simp: run_bench_def benchmark_kdf_def kdf sized alg key Let_def split: sum.splits prod.splits outcome.splits)
qed

lemma sized_run_command:
  assumes "keys_sized P"
  shows "run_command (on_sizes P R) env clock c s = run_command P env clock c s"
proof -
  have argon: "argon2_sized P" using assms by (simp add: keys_sized_def)
  have whole: "encrypt_file (on_sizes P R) = encrypt_file P" "decrypt_file (on_sizes P R) = decrypt_file P"
    "keygen (on_sizes P R) = keygen P" "derive (on_sizes P R) = derive P"
    "run_sign (on_sizes P R) = run_sign P" "run_verify (on_sizes P R) = run_verify P"
    by (intro ext; simp add: sized argon assms)+
  then have "run_derive (on_sizes P R) = run_derive P"
    by (intro ext) (simp add: run_derive_def)
  with whole show ?thesis
    by (cases c) (simp_all add: sized assms run_ssh_command_def run_bench_command_def)
qed

section \<open>Every command\<close>

text \<open>In the code the arrays have their lengths in their types; here they are lists. That loses
  nothing: whatever the primitives do on keys that are not 32 bytes, nonces that are not 12 and
  signatures or key pairs that are not 64, every command of every process has the same exit code,
  files, output and child processes.\<close>

lemma array_lengths_are_respected:
  assumes "argon2_sized P" and "\<forall>seed. length seed = 32 \<longrightarrow> length (ed25519_public P seed) = 32"
  shows "cry_main (on_sizes P R) env clock cmd s = cry_main P env clock cmd s"
  using sized_run_command [of P R env clock _ s] assms
  by (simp add: cry_main_def keys_sized_def split: option.splits)

end
