(* ===== verification/Cry_Tests.thy ===== *)
theory Cry_Tests
  imports Cry_Files Cry_Identity
begin

text \<open>
  The unit tests of \<open>cipher.rs\<close> and \<open>crydna.rs\<close> as programs over the model: each test is
  its body with every \<open>unwrap\<close>, index, slice and assertion, and passes when it returns
  without a panic. The primitives are a parameter, so a theorem over all lawful primitives says
  more than one run of the tests. The tests fall into those that follow from the primitives'
  documented behaviour and those that pass exactly when the primitives tell two inputs apart.
\<close>

section \<open>Test bodies\<close>

definition run_then :: "'a outcome \<Rightarrow> ('a \<Rightarrow> 'b outcome) \<Rightarrow> 'b outcome" where
  "run_then m k = (case m of Panicked \<Rightarrow> Panicked | Returned x \<Rightarrow> k x)"

definition unwrap_result :: "'e + 'a \<Rightarrow> 'a outcome" where
  "unwrap_result r = (case r of Inl e \<Rightarrow> Panicked | Inr x \<Rightarrow> Returned x)"

text \<open>\<open>unwrap\<close> of an operation that also leaves a state.\<close>

definition unwrap_with :: "('e + 'a) \<times> 's \<Rightarrow> ('a \<times> 's) outcome" where
  "unwrap_with m = (case m of (Inl e, s) \<Rightarrow> Panicked | (Inr x, s) \<Rightarrow> Returned (x, s))"

definition unwrap_err :: "('e + 'a) \<times> 's \<Rightarrow> ('e \<times> 's) outcome" where
  "unwrap_err m = (case m of (Inl e, s) \<Rightarrow> Returned (e, s) | (Inr x, s) \<Rightarrow> Panicked)"

definition assert_that :: "bool \<Rightarrow> unit outcome" where
  "assert_that b = (if b then Returned () else Panicked)"

definition is_err :: "'e + 'a \<Rightarrow> bool" where
  "is_err r = (case r of Inl e \<Rightarrow> True | Inr x \<Rightarrow> False)"

text \<open>A \<open>Vec\<close> as a writer, a \<open>Cursor\<close> or a slice as a reader, and panicking slices.\<close>

definition vec :: "bytes \<Rightarrow> writer" where
  "vec bs = \<lparr>sunk = bs, wplan = []\<rparr>"

definition cursor :: "bytes \<Rightarrow> reader" where
  "cursor bs = (if bs = [] then [] else [Data bs])"

definition slice_to :: "nat \<Rightarrow> bytes \<Rightarrow> bytes outcome" where
  "slice_to n bs = (if n \<le> length bs then Returned (take n bs) else Panicked)"

definition slice_from :: "nat \<Rightarrow> bytes \<Rightarrow> bytes outcome" where
  "slice_from n bs = (if n \<le> length bs then Returned (drop n bs) else Panicked)"

text \<open>\<open>bs[i] ^= m\<close>.\<close>

definition xor_at :: "nat \<Rightarrow> byte \<Rightarrow> bytes \<Rightarrow> bytes outcome" where
  "xor_at i m bs = (if i < length bs then Returned (bs[i := xor (bs ! i) m]) else Panicked)"

lemma run_then_simps [simp]:
  "run_then (Returned x) k = k x" "run_then Panicked k = Panicked"
  by (simp_all add: run_then_def)

lemma unwrap_simps [simp]:
  "unwrap_result (Inr x) = Returned x" "unwrap_result (Inl e) = Panicked"
  "unwrap_with (Inr x, s) = Returned (x, s)" "unwrap_with (Inl e, s) = Panicked"
  "unwrap_err (Inl e, s) = Returned (e, s)" "unwrap_err (Inr x, s) = Panicked"
  by (simp_all add: unwrap_result_def unwrap_with_def unwrap_err_def)

lemma assert_that_passes [simp]: "assert_that b = Returned () \<longleftrightarrow> b" "assert_that True = Returned ()"
  by (simp_all add: assert_that_def)

lemma is_err_simps [simp]: "is_err (Inl e)" "\<not> is_err (Inr x)"
  by (simp_all add: is_err_def)

lemma cursor_simps [simp]: "clean (cursor bs)" "pending (cursor bs) = bs"
  by (simp_all add: cursor_def)

lemma vec_simps [simp]: "sunk (vec bs) = bs" "willing (vec bs)"
  by (simp_all add: vec_def willing_def)

lemma slices_at [simp]:
  "length a = n \<Longrightarrow> slice_to n (a @ b) = Returned a"
  "length a = n \<Longrightarrow> slice_from n (a @ b) = Returned b"
  by (auto simp: slice_to_def slice_from_def)

section \<open>The tests of the cipher\<close>

definition make_key_and_header ::
  "crypto \<Rightarrow> algorithm \<Rightarrow> bytes \<Rightarrow> world \<Rightarrow> (bytes \<times> header \<times> bytes) outcome" where
  "make_key_and_header P algo input w =
    (let (salt, w) = fill_bytes SALT_LEN w;
         (nonce_bytes, w) = fill_bytes NONCE_LEN w;
         chunk_count = div_ceil (word_of_nat (length input)) (word_of_nat CHUNK_SIZE);
         header = \<lparr>hdr_algo = algo, hdr_salt = salt, hdr_nonce = nonce_bytes,
                   hdr_chunk_count = chunk_count\<rparr>
     in run_then (unwrap_result (derive_key P (str_bytes ''correct horse battery staple'') salt)) (\<lambda>key.
        let aad = header_aad P header
        in Returned (key, header, aad)))"

definition roundtrip :: "crypto \<Rightarrow> algorithm \<Rightarrow> bytes \<Rightarrow> world \<Rightarrow> unit outcome" where
  "roundtrip P algo input w =
    run_then (make_key_and_header P algo input w) (\<lambda>(key, header, aad).
    let nonce = hdr_nonce header; chunk_count = hdr_chunk_count header in
    run_then (unwrap_with (header_write P header key (vec []))) (\<lambda>(_, cipher_buf).
    run_then (unwrap_with (encrypt_chunks P (cursor input) cipher_buf key nonce algo aad chunk_count))
      (\<lambda>(_, _, cipher_buf).
    let raw_header_len = HEADER_LEN in
    run_then (slice_to raw_header_len (sunk cipher_buf)) (\<lambda>raw_header.
    run_then (unwrap_with (header_read P key (cursor raw_header))) (\<lambda>(header2, _).
    run_then (slice_from raw_header_len (sunk cipher_buf)) (\<lambda>body.
    run_then (unwrap_with (decrypt_chunks P (cursor body) (vec []) key (hdr_nonce header2)
        (hdr_algo header2) aad (hdr_chunk_count header2))) (\<lambda>(_, _, plain_out).
    assert_that (sunk plain_out = input))))))))"

definition roundtrip_aes_empty :: "crypto \<Rightarrow> world \<Rightarrow> unit outcome" where
  "roundtrip_aes_empty P w = roundtrip P Aes256Gcm [] w"

definition roundtrip_aes_small :: "crypto \<Rightarrow> world \<Rightarrow> unit outcome" where
  "roundtrip_aes_small P w = roundtrip P Aes256Gcm (str_bytes ''Hello, cry!'') w"

definition roundtrip_chacha_small :: "crypto \<Rightarrow> world \<Rightarrow> unit outcome" where
  "roundtrip_chacha_small P w = roundtrip P ChaCha20Poly1305 (str_bytes ''ChaCha test data 1234'') w"

definition roundtrip_aes_multi_chunk :: "crypto \<Rightarrow> world \<Rightarrow> unit outcome" where
  "roundtrip_aes_multi_chunk P w =
     roundtrip P Aes256Gcm (replicate (CHUNK_SIZE * 2 + CHUNK_SIZE div 2) 0xAB) w"

definition roundtrip_chacha_multi_chunk :: "crypto \<Rightarrow> world \<Rightarrow> unit outcome" where
  "roundtrip_chacha_multi_chunk P w = roundtrip P ChaCha20Poly1305 (replicate (CHUNK_SIZE + 1) 0x42) w"

definition nonce_counter_no_collision :: "unit outcome" where
  "nonce_counter_no_collision =
    (let base = replicate NONCE_LEN 0 in
     run_then (assert_that (chunk_nonce base 0 \<noteq> chunk_nonce base 1)) (\<lambda>_.
     let base2 = replicate NONCE_LEN 0xFF in
     assert_that (chunk_nonce base2 0 \<noteq> chunk_nonce base2 1)))"

definition tamper_detection :: "crypto \<Rightarrow> world \<Rightarrow> unit outcome" where
  "tamper_detection P w =
    run_then (make_key_and_header P Aes256Gcm (str_bytes ''secret data'') w) (\<lambda>(key, header, aad).
    let nonce = hdr_nonce header; chunk_count = hdr_chunk_count header in
    run_then (unwrap_with (header_write P header key (vec []))) (\<lambda>(_, buf).
    run_then (unwrap_with (encrypt_chunks P (cursor (str_bytes ''secret data'')) buf key nonce
        Aes256Gcm aad chunk_count)) (\<lambda>(_, _, buf).
    let header_len = HEADER_LEN in
    run_then (xor_at (header_len + 5) 0xFF (sunk buf)) (\<lambda>buf.
    run_then (slice_from header_len buf) (\<lambda>body.
    let (result, _) = decrypt_chunks P (cursor body) (vec []) key nonce Aes256Gcm aad chunk_count
    in assert_that (is_err result))))))"

definition wrong_passphrase_fails :: "crypto \<Rightarrow> world \<Rightarrow> unit outcome" where
  "wrong_passphrase_fails P w =
    (let (salt, w) = fill_bytes SALT_LEN w in
     run_then (unwrap_result (derive_key P (str_bytes ''correct'') salt)) (\<lambda>key.
     run_then (unwrap_result (derive_key P (str_bytes ''wrong'') salt)) (\<lambda>wrong_key.
     let (nonce_bytes, w) = fill_bytes NONCE_LEN w;
         header = \<lparr>hdr_algo = Aes256Gcm, hdr_salt = salt, hdr_nonce = nonce_bytes, hdr_chunk_count = 1\<rparr>
     in run_then (unwrap_with (header_write P header key (vec []))) (\<lambda>(_, buf).
        let (result, _) = header_read P wrong_key (cursor (sunk buf))
        in assert_that (is_err result)))))"

subsection \<open>Why they pass\<close>

lemma make_key_and_header_works:
  assumes P: "primitives_work P" and "length input < 2 ^ 64"
  obtains key h where "make_key_and_header P algo input w = Returned (key, h, header_aad P h)"
    and "header_wf h" and "hdr_algo h = algo" and "length key = KEY_LEN"
    and "hdr_chunk_count h = word_of_nat (length (pieces input))"
    and "chunk_args key (hdr_nonce h) (header_aad P h)"
proof -
  define salt where "salt = fst (fill_bytes SALT_LEN w)"
  define h where "h = \<lparr>hdr_algo = algo, hdr_salt = salt,
      hdr_nonce = fst (fill_bytes NONCE_LEN (snd (fill_bytes SALT_LEN w))),
      hdr_chunk_count = div_ceil (word_of_nat (length input)) (word_of_nat CHUNK_SIZE)\<rparr>"
  obtain key where key: "derive_key P (str_bytes ''correct horse battery staple'') salt = Inr key"
      "length key = KEY_LEN"
    using derive_key_works [of P "str_bytes ''correct horse battery staple''" salt] P
    by (auto simp: primitives_work_def salt_def SALT_LEN_def)
  have "header_wf h" "hdr_algo h = algo" by (simp_all add: header_wf_def h_def salt_def)
  moreover from this have "chunk_args key (hdr_nonce h) (header_aad P h)"
    using P key(2) by (simp add: chunk_args_def header_wf_def header_aad_def hashes_sized_def
        primitives_work_def)
  moreover have "make_key_and_header P algo input w = Returned (key, h, header_aad P h)"
    using key(1) by (simp add: make_key_and_header_def split_beta h_def salt_def Let_def)
  ultimately show ?thesis
    using that key(2) assms(2) by (simp add: h_def div_ceil_pieces)
qed

text \<open>What the first half of the stream tests leaves in the buffer.\<close>

lemma test_encrypts:
  assumes P: "primitives_work P" and "header_wf h" and "chunk_args key (hdr_nonce h) (header_aad P h)"
  obtains wr r' w' body where "header_write P h key (vec []) = (Inr (), wr)"
    and "encrypt_chunks P (cursor input) wr key (hdr_nonce h) algo (header_aad P h) tc =
      (Inr (word_of_nat (length (pieces input))), r', w')"
    and "sunk w' = header_image P key h @ body"
    and "sealed_body P key (hdr_nonce h) algo (header_aad P h) 0 (pieces input) body"
proof -
  obtain wr where wr: "header_write P h key (vec []) = (Inr (), wr)" "willing wr"
      "sunk wr = header_image P key h"
    using header_write_willing [of "vec []" P h key] by auto
  have "ciphers_lawful P" using P by (simp add: primitives_work_def)
  from encrypt_loop_clean [OF this assms(3) cursor_simps(1) [of input] wr(2), of algo 0] wr that show ?thesis
    by (auto simp: encrypt_chunks_def)
qed

lemma roundtrip_passes:
  assumes P: "primitives_work P" and "length input < 2 ^ 64"
  shows "roundtrip P algo input w = Returned ()"
proof -
  have laws: "ciphers_lawful P" "hashes_sized P" using P by (simp_all add: primitives_work_def)
  obtain key h where h: "make_key_and_header P algo input w = Returned (key, h, header_aad P h)"
      "header_wf h" "hdr_algo h = algo" "chunk_args key (hdr_nonce h) (header_aad P h)"
    using make_key_and_header_works [OF assms] by metis
  obtain wr r' w' body where enc: "header_write P h key (vec []) = (Inr (), wr)"
      "encrypt_chunks P (cursor input) wr key (hdr_nonce h) algo (header_aad P h) (hdr_chunk_count h) =
        (Inr (word_of_nat (length (pieces input))), r', w')"
      "sunk w' = header_image P key h @ body"
      "sealed_body P key (hdr_nonce h) algo (header_aad P h) 0 (pieces input) body"
    using test_encrypts [OF P h(2,4)] by metis
  have len: "length (header_image P key h) = HEADER_LEN" by (rule length_header_image [OF laws(2) h(2)])
  obtain r2 where rd: "header_read P key (cursor (header_image P key h)) = (Inr h, r2)"
    using header_read_image [OF cursor_simps(1) h(2) laws(2), of _ key "[]"] by auto
  have "pending (cursor body) = body @ []" by simp
  from decrypt_loop_sealed [OF laws(1) h(4) piece_lengths_pieces enc(4) cursor_simps(1) this,
      of "vec []"]
  obtain r3 w3 where "decrypt_chunks P (cursor body) (vec []) key (hdr_nonce h) algo (header_aad P h)
      (hdr_chunk_count h) = (Inr (word_of_nat (length (pieces input))), r3, w3)" "sunk w3 = input"
    by (auto simp: decrypt_chunks_def)
  then show ?thesis
    using h enc(1-3) rd len by (simp add: roundtrip_def)
qed

lemma nonce_test_passes: "nonce_counter_no_collision = Returned ()"
  using chunk_nonce_inject [of "replicate 12 0" 0 1] chunk_nonce_inject [of "replicate 12 255" 0 1]
  by (auto simp: nonce_counter_no_collision_def NONCE_LEN_def assert_that_def Let_def)

text \<open>A frame whose opening fails ends the loop with that error.\<close>

lemma decrypt_loop_rejects:
  assumes "clean r" "pending r = frame ct" "length ct \<le> MAX_CHUNK_WIRE_LEN"
    and "unseal P key base algo aad i ct = Inl e"
  shows "fst (decrypt_loop P key base algo aad i r w) = Inl e"
proof -
  let ?len = "u32_to_be_bytes (word_of_nat (length ct))"
  obtain r1 where r1: "read_exact 4 r = (Inr ?len, r1)" "clean r1" "pending r1 = ct @ []"
    using rx.rx_prefix [OF assms(1), of ?len ct 4] assms(2) by (auto simp: frame_def)
  obtain r2 where r2: "read_exact (length ct) r1 = (Inr ct, r2)"
    using rx.rx_prefix [OF r1(2,3) refl] by blast
  have "length ct < 2 ^ 32" using assms(3) by (simp add: MAX_CHUNK_WIRE_LEN_def CHUNK_SIZE_def)
  then have "unat (u32_from_be_bytes ?len) = length ct" by (simp add: be32.dec_enc_id unat_of_nat)
  then show ?thesis
    using r1(1) r2 assms(3,4) [unfolded unseal_def]
    by (simp add: decrypt_loop.simps [of P key base algo aad i r w])
qed

text \<open>One frame decrypts exactly when its ciphertext opens.\<close>

lemma decrypt_one_frame:
  assumes "length ct \<le> MAX_CHUNK_WIRE_LEN"
  shows "is_err (fst (decrypt_chunks P (cursor (frame ct)) (vec []) key base algo aad tc)) \<longleftrightarrow>
    is_err (unseal P key base algo aad 0 ct)"
proof (cases "unseal P key base algo aad 0 ct")
  case (Inl e)
  with decrypt_loop_rejects [OF cursor_simps(1,2) assms] show ?thesis
    by (simp add: decrypt_chunks_def)
next
  case (Inr m)
  have "pending (cursor (frame ct)) = frame ct @ []" by simp
  from decrypt_loop_frame [OF cursor_simps(1) this assms Inr vec_simps(2) [of "[]"]] obtain r' w' where step:
    "decrypt_loop P key base algo aad 0 (cursor (frame ct)) (vec []) = decrypt_loop P key base algo aad 1 r' w'"
    "clean r'" "pending r' = []"
    by auto
  then have "length (pending r') < 4" by simp
  with step rx.rx_short [of r' 4] Inr show ?thesis
    by (auto simp: decrypt_chunks_def decrypt_loop.simps [of P key base algo aad 1 r' w'])
qed

text \<open>
  The tampering test flips the byte five places behind the header, after the four length bytes the
  second one of the ciphertext; it passes exactly when the cipher does not open the result.
\<close>

lemma tamper_detection_iff:
  assumes P: "primitives_work P"
    and made: "make_key_and_header P Aes256Gcm (str_bytes ''secret data'') w = Returned (key, h, aad)"
    and "encrypt_chunk P (str_bytes ''secret data'') key (chunk_nonce (hdr_nonce h) 0) Aes256Gcm
      (chunk_aad aad 0) = Inr ct"
  shows "tamper_detection P w = Returned () \<longleftrightarrow>
    is_err (decrypt_chunk P (ct[1 := xor (ct ! 1) 0xFF]) key (chunk_nonce (hdr_nonce h) 0) Aes256Gcm
      (chunk_aad aad 0))"
proof -
  let ?m = "str_bytes ''secret data''" and ?ct = "ct[1 := xor (ct ! 1) 0xFF]"
  have laws: "ciphers_lawful P" "hashes_sized P" using P by (simp_all add: primitives_work_def)
  have small: "length ?m < 2 ^ 64" "?m \<noteq> []" "length ?m \<le> CHUNK_SIZE"
    by (simp_all add: CHUNK_SIZE_def str_bytes_def)
  have h: "aad = header_aad P h" "header_wf h" "chunk_args key (hdr_nonce h) (header_aad P h)"
    using make_key_and_header_works [OF P small(1), of Aes256Gcm w] made by auto
  obtain wr r' w' body where enc: "header_write P h key (vec []) = (Inr (), wr)"
      "encrypt_chunks P (cursor ?m) wr key (hdr_nonce h) Aes256Gcm (header_aad P h) (hdr_chunk_count h) =
        (Inr (word_of_nat (length (pieces ?m))), r', w')"
      "sunk w' = header_image P key h @ body"
      "sealed_body P key (hdr_nonce h) Aes256Gcm (header_aad P h) 0 (pieces ?m) body"
    using test_encrypts [OF P h(2,3)] by metis
  have len: "length (header_image P key h) = HEADER_LEN" by (rule length_header_image [OF laws(2) h(2)])
  have pcs: "pieces ?m = [?m]" by (rule small_pieces [OF small(2,3)])
  have body: "body = frame ct"
    using enc(4) assms(3) unfolding pcs h(1) by (simp add: sealed_body_Cons seal_def)
  obtain ct' where "seal P key (hdr_nonce h) Aes256Gcm (header_aad P h) 0 ?m = Inr ct'"
      "length ct' = length ?m + 16"
    using seal_lawful [OF laws(1) h(3), of ?m Aes256Gcm 0] small(3) by blast
  then have ct: "length ct = 27" using assms(3) h(1) by (simp add: seal_def)
  have flip: "xor_at (HEADER_LEN + 5) 0xFF (header_image P key h @ frame ct) =
      Returned (header_image P key h @ frame ?ct)"
    using len ct by (simp add: xor_at_def list_update_append nth_append frame_def)
  have "length ?ct \<le> MAX_CHUNK_WIRE_LEN" using ct by (simp add: MAX_CHUNK_WIRE_LEN_def)
  from decrypt_one_frame [OF this, of P key "hdr_nonce h" Aes256Gcm aad "hdr_chunk_count h"]
  show ?thesis
    using made h(1) enc(1-3) flip len body
    by (simp add: tamper_detection_def split_beta Let_def unseal_def)
qed

text \<open>The wrong passphrase is told from the right one exactly by the header's tag.\<close>

lemma wrong_passphrase_fails_iff:
  assumes P: "primitives_work P" and "fill_bytes SALT_LEN w = (salt, w1)"
    and "fill_bytes NONCE_LEN w1 = (nonce, w2)"
    and "derive_key P (str_bytes ''correct'') salt = Inr key"
    and "derive_key P (str_bytes ''wrong'') salt = Inr wrong_key"
    and "h = \<lparr>hdr_algo = Aes256Gcm, hdr_salt = salt, hdr_nonce = nonce, hdr_chunk_count = 1\<rparr>"
  shows "wrong_passphrase_fails P w = Returned () \<longleftrightarrow>
    compute_hmac P (pre_hmac_bytes h) wrong_key \<noteq> compute_hmac P (pre_hmac_bytes h) key"
proof -
  have sized: "hashes_sized P" using P by (simp add: primitives_work_def)
  have wf: "header_wf h"
    using assms(2,3,6) length_fill_bytes [of SALT_LEN w] length_fill_bytes [of NONCE_LEN w1]
    by (simp add: header_wf_def)
  obtain wr where wr: "header_write P h key (vec []) = (Inr (), wr)" "sunk wr = header_image P key h"
    using header_write_willing [of "vec []" P h key] by auto
  let ?img = "header_image P key h"
  from header_read_parse [OF cursor_simps(1), of P wrong_key ?img] obtain r' where
    rd: "header_read P wrong_key (cursor ?img) = (header_parse P wrong_key ?img, r')"
    by auto
  have "is_err (header_parse P wrong_key ?img) \<longleftrightarrow>
      compute_hmac P (pre_hmac_bytes h) wrong_key \<noteq> compute_hmac P (pre_hmac_bytes h) key"
    using header_parse_any_key [OF wf sized, of wrong_key key "[]"] by simp
  then show ?thesis
    using assms(2-6) wr rd by (simp add: wrong_passphrase_fails_def)
qed

section \<open>The tests of the identities\<close>

definition starts_with :: "string \<Rightarrow> string \<Rightarrow> bool" where
  "starts_with p s \<longleftrightarrow> take (length p) s = p"

definition ends_with :: "string \<Rightarrow> string \<Rightarrow> bool" where
  "ends_with p s \<longleftrightarrow> length p \<le> length s \<and> drop (length s - length p) s = p"

definition same_passphrase_same_key :: "crypto \<Rightarrow> unit outcome" where
  "same_passphrase_same_key P =
    run_then (unwrap_result (identity_derive P (str_bytes ''hunter2'') ''default'' 0 None)) (\<lambda>a.
    run_then (unwrap_result (identity_derive P (str_bytes ''hunter2'') ''default'' 0 None)) (\<lambda>b.
    assert_that (public_key_hex P a = public_key_hex P b)))"

definition different_namespace_different_key :: "crypto \<Rightarrow> unit outcome" where
  "different_namespace_different_key P =
    run_then (unwrap_result (identity_derive P (str_bytes ''passphrase'') ''work'' 0 None)) (\<lambda>a.
    run_then (unwrap_result (identity_derive P (str_bytes ''passphrase'') ''personal'' 0 None)) (\<lambda>b.
    assert_that (public_key_hex P a \<noteq> public_key_hex P b)))"

definition version_rotation :: "crypto \<Rightarrow> unit outcome" where
  "version_rotation P =
    run_then (unwrap_result (identity_derive P (str_bytes ''passphrase'') ''default'' 0 None)) (\<lambda>v0.
    run_then (unwrap_result (identity_derive P (str_bytes ''passphrase'') ''default'' 1 None)) (\<lambda>v1.
    assert_that (public_key_hex P v0 \<noteq> public_key_hex P v1)))"

definition sub_identity_differs_from_parent :: "crypto \<Rightarrow> unit outcome" where
  "sub_identity_differs_from_parent P =
    run_then (unwrap_result (identity_derive P (str_bytes ''pass'') ''work'' 0 None)) (\<lambda>parent.
    run_then (unwrap_result (identity_derive P (str_bytes ''pass'') ''work'' 0 (Some ''deploy''))) (\<lambda>child.
    assert_that (public_key_hex P parent \<noteq> public_key_hex P child)))"

definition different_passphrase_different_key :: "crypto \<Rightarrow> unit outcome" where
  "different_passphrase_different_key P =
    run_then (unwrap_result (identity_derive P (str_bytes ''correct horse battery staple'') ''default'' 0 None)) (\<lambda>a.
    run_then (unwrap_result (identity_derive P (str_bytes ''wrong passphrase'') ''default'' 0 None)) (\<lambda>b.
    assert_that (public_key_hex P a \<noteq> public_key_hex P b)))"

definition sign_verify_roundtrip_test :: "crypto \<Rightarrow> unit outcome" where
  "sign_verify_roundtrip_test P =
    run_then (unwrap_result (identity_derive P (str_bytes ''test-pass'') ''default'' 0 None)) (\<lambda>i.
    let content = str_bytes ''Hello, CryDNA!'';
        sig = sign_content P i content;
        pub_hex = public_key_hex P i;
        sig_hex = signature_hex sig
    in run_then (verify_content_signature P pub_hex content sig_hex) (\<lambda>result.
       assert_that (\<not> is_err result)))"

definition tampered_content_fails_verify :: "crypto \<Rightarrow> unit outcome" where
  "tampered_content_fails_verify P =
    run_then (unwrap_result (identity_derive P (str_bytes ''test-pass'') ''default'' 0 None)) (\<lambda>i.
    let content = str_bytes ''Original content'';
        sig = sign_content P i content;
        pub_hex = public_key_hex P i;
        sig_hex = signature_hex sig
    in run_then (verify_content_signature P pub_hex (str_bytes ''Tampered content'') sig_hex) (\<lambda>result.
       assert_that (is_err result)))"

definition wrong_key_fails_verify :: "crypto \<Rightarrow> unit outcome" where
  "wrong_key_fails_verify P =
    run_then (unwrap_result (identity_derive P (str_bytes ''alice'') ''default'' 0 None)) (\<lambda>id_a.
    run_then (unwrap_result (identity_derive P (str_bytes ''bob'') ''default'' 0 None)) (\<lambda>id_b.
    let content = str_bytes ''some data'';
        sig = sign_content P id_a content;
        sig_hex = signature_hex sig
    in run_then (verify_content_signature P (public_key_hex P id_b) content sig_hex) (\<lambda>result.
       assert_that (is_err result))))"

definition fingerprint_is_sha256_format :: "crypto \<Rightarrow> unit outcome" where
  "fingerprint_is_sha256_format P =
    run_then (unwrap_result (identity_derive P (str_bytes ''pass'') ''default'' 0 None)) (\<lambda>i.
    assert_that (starts_with ''SHA256:'' (fingerprint P i)))"

definition ssh_line_format :: "crypto \<Rightarrow> unit outcome" where
  "ssh_line_format P =
    run_then (unwrap_result (identity_derive P (str_bytes ''pass'') ''default'' 0 None)) (\<lambda>i.
    let line = ssh_authorized_keys_line P i ''test@host'' in
    run_then (assert_that (starts_with ''ssh-ed25519 '' line)) (\<lambda>_.
    assert_that (ends_with ''test@host'' line)))"

definition hex_roundtrip_test :: "unit outcome" where
  "hex_roundtrip_test =
    (let bytes = [0xDE, 0xAD, 0xBE, 0xEF, 0x00, 0xFF];
         hex = bytes_to_hex bytes
     in run_then (assert_that (hex = ''deadbeef00ff'')) (\<lambda>_.
        run_then (hex_to_bytes hex) (\<lambda>parsed.
        run_then (unwrap_result parsed) (\<lambda>parsed_bytes.
        assert_that (parsed_bytes = bytes)))))"

definition salt_differs_across_params :: "crypto \<Rightarrow> unit outcome" where
  "salt_differs_across_params P =
    (let s1 = derive_salt P ''work'' 0 None;
         s2 = derive_salt P ''personal'' 0 None;
         s3 = derive_salt P ''work'' 1 None;
         s4 = derive_salt P ''work'' 0 (Some ''deploy'')
     in run_then (assert_that (s1 \<noteq> s2)) (\<lambda>_.
        run_then (assert_that (s1 \<noteq> s3)) (\<lambda>_.
        assert_that (s1 \<noteq> s4))))"

subsection \<open>Why they pass\<close>

lemma identity_derive_works:
  assumes "primitives_work P" and "length pass < 2 ^ 32"
  obtains i where "identity_derive P pass ns v sub = Inr i" and "length (signing_key i) = 32"
proof -
  have "length (derive_salt P ns v sub) = 16"
    using assms(1) by (simp add: derive_salt_def primitives_work_def hashes_sized_def)
  then obtain seed where "derive_key P pass (derive_salt P ns v sub) = Inr seed"
    using derive_key_works [of P pass "derive_salt P ns v sub"] assms by (auto simp: primitives_work_def)
  then have "identity_derive P pass ns v sub = Inr \<lparr>signing_key = seed\<rparr>"
    by (auto simp: identity_derive_def derive_key_def SEED_LEN_def KEY_LEN_def Let_def split: sum.splits)
  then obtain i where "identity_derive P pass ns v sub = Inr i" by blast
  moreover have "argon2_sized P" using assms(1) by (simp add: primitives_work_def argon2_works_def)
  ultimately show ?thesis using that identity_derive_length by blast
qed

lemma bytes_to_hex_inject [simp]: "bytes_to_hex a = bytes_to_hex b \<longleftrightarrow> a = b"
  by (metis hex_to_bytes_of_hex outcome.inject sum.inject(2))

lemma starts_with_append [simp]: "starts_with p (p @ s)"
  by (simp add: starts_with_def)

lemma ends_with_append [simp]: "ends_with p (s @ p)"
  by (simp add: ends_with_def)

text \<open>A text verified under a public key and a signature of the right lengths.\<close>

lemma verify_hex_is_err:
  assumes "length pk = 32" and "ed25519_point P pk = Inr pk" and "length sb = 64"
  shows "verify_content_signature P (bytes_to_hex pk) content (signature_hex sb) =
    Returned (if ed25519_verify P pk (content_digest P content) sb then Inr () else Inl bad_signature)"
  using assms by (simp add: verify_content_signature_def parse_hex_def signature_hex_def)

lemma identity_tests_pass:
  assumes P: "primitives_work P" and "ed25519_lawful P"
  shows "same_passphrase_same_key P = Returned ()"
    and "sign_verify_roundtrip_test P = Returned ()"
    and "fingerprint_is_sha256_format P = Returned ()"
    and "ssh_line_format P = Returned ()"
    and "hex_roundtrip_test = Returned ()"
proof -
  obtain i where "identity_derive P (str_bytes ''hunter2'') ''default'' 0 None = Inr i"
    by (rule identity_derive_works [OF P, of "str_bytes ''hunter2''"]) simp_all
  then show "same_passphrase_same_key P = Returned ()" by (simp add: same_passphrase_same_key_def)
next
  obtain i where "identity_derive P (str_bytes ''test-pass'') ''default'' 0 None = Inr i"
      "length (signing_key i) = 32"
    by (rule identity_derive_works [OF P, of "str_bytes ''test-pass''"]) simp_all
  then show "sign_verify_roundtrip_test P = Returned ()"
    using signed_content_verifies [OF assms(2)] by (simp add: sign_verify_roundtrip_test_def Let_def)
next
  obtain i where i: "identity_derive P (str_bytes ''pass'') ''default'' 0 None = Inr i"
    by (rule identity_derive_works [OF P, of "str_bytes ''pass''"]) simp_all
  have "starts_with ''SHA256:'' (fingerprint P i)"
    unfolding fingerprint_def Let_def by (rule starts_with_append)
  with i show "fingerprint_is_sha256_format P = Returned ()"
    by (simp add: fingerprint_is_sha256_format_def)
  have "starts_with ''ssh-ed25519 '' (ssh_authorized_keys_line P i c)"
    "ends_with c (ssh_authorized_keys_line P i c)" for c
    unfolding ssh_authorized_keys_line_def append_assoc [symmetric]
    by (simp_all only: append_assoc starts_with_append) (simp only: append_assoc [symmetric] ends_with_append)
  with i show "ssh_line_format P = Returned ()"
    by (simp add: ssh_line_format_def Let_def)
next
  show "hex_roundtrip_test = Returned ()" by code_simp
qed

text \<open>The tests that different parameters give different keys compare two public keys.\<close>

definition public_of :: "crypto \<Rightarrow> string \<Rightarrow> string \<Rightarrow> u32 \<Rightarrow> string option \<Rightarrow> bytes option" where
  "public_of P pass ns v sub =
    (case identity_derive P (str_bytes pass) ns v sub of Inl e \<Rightarrow> None | Inr i \<Rightarrow> Some (verifying_key P i))"

lemma key_separation_iff:
  assumes P: "primitives_work P"
    and "length pass < 2 ^ 32" "length pass' < 2 ^ 32"
  shows "run_then (unwrap_result (identity_derive P (str_bytes pass) ns v sub)) (\<lambda>a.
      run_then (unwrap_result (identity_derive P (str_bytes pass') ns' v' sub')) (\<lambda>b.
      assert_that (public_key_hex P a \<noteq> public_key_hex P b))) = Returned () \<longleftrightarrow>
    public_of P pass ns v sub \<noteq> public_of P pass' ns' v' sub'"
proof -
  obtain i where "identity_derive P (str_bytes pass) ns v sub = Inr i"
    by (rule identity_derive_works [OF P, of "str_bytes pass"]) (use assms(2) in simp_all)
  moreover obtain j where "identity_derive P (str_bytes pass') ns' v' sub' = Inr j"
    by (rule identity_derive_works [OF P, of "str_bytes pass'"]) (use assms(3) in simp_all)
  ultimately show ?thesis by (simp add: public_of_def public_key_hex_def)
qed

lemma key_separation_tests_iff:
  assumes P: "primitives_work P"
  shows "different_namespace_different_key P = Returned () \<longleftrightarrow>
      public_of P ''passphrase'' ''work'' 0 None \<noteq> public_of P ''passphrase'' ''personal'' 0 None"
    and "version_rotation P = Returned () \<longleftrightarrow>
      public_of P ''passphrase'' ''default'' 0 None \<noteq> public_of P ''passphrase'' ''default'' 1 None"
    and "sub_identity_differs_from_parent P = Returned () \<longleftrightarrow>
      public_of P ''pass'' ''work'' 0 None \<noteq> public_of P ''pass'' ''work'' 0 (Some ''deploy'')"
    and "different_passphrase_different_key P = Returned () \<longleftrightarrow>
      public_of P ''correct horse battery staple'' ''default'' 0 None \<noteq>
      public_of P ''wrong passphrase'' ''default'' 0 None"
  unfolding different_namespace_different_key_def version_rotation_def
    sub_identity_differs_from_parent_def different_passphrase_different_key_def
  by (rule key_separation_iff [OF P]; simp)+

text \<open>The tests that verification rejects are answers of the Ed25519 check.\<close>

lemma rejection_tests_iff:
  assumes P: "primitives_work P" and E: "ed25519_lawful P"
    and i: "identity_derive P (str_bytes ''test-pass'') ''default'' 0 None = Inr i"
    and a: "identity_derive P (str_bytes ''alice'') ''default'' 0 None = Inr a"
    and b: "identity_derive P (str_bytes ''bob'') ''default'' 0 None = Inr b"
  shows "tampered_content_fails_verify P = Returned () \<longleftrightarrow>
      \<not> ed25519_verify P (verifying_key P i) (content_digest P (str_bytes ''Tampered content''))
          (sign_content P i (str_bytes ''Original content''))"
    and "wrong_key_fails_verify P = Returned () \<longleftrightarrow>
      \<not> ed25519_verify P (verifying_key P b) (content_digest P (str_bytes ''some data''))
          (sign_content P a (str_bytes ''some data''))"
proof -
  have "argon2_sized P" using P by (simp add: primitives_work_def argon2_works_def)
  then have "length (signing_key i) = 32" "length (signing_key a) = 32" "length (signing_key b) = 32"
    using i a b identity_derive_length by blast+
  then have sized: "length (verifying_key P i) = 32" "ed25519_point P (verifying_key P i) = Inr (verifying_key P i)"
    "length (sign_content P i c) = 64" "length (verifying_key P b) = 32"
    "ed25519_point P (verifying_key P b) = Inr (verifying_key P b)" "length (sign_content P a c) = 64" for c
    using E by (simp_all add: ed25519_lawful_def verifying_key_def sign_content_def)
  show "tampered_content_fails_verify P = Returned () \<longleftrightarrow>
      \<not> ed25519_verify P (verifying_key P i) (content_digest P (str_bytes ''Tampered content''))
          (sign_content P i (str_bytes ''Original content''))"
    using i by (simp add: tampered_content_fails_verify_def Let_def public_key_hex_def
        verify_hex_is_err [OF sized(1-3)])
  show "wrong_key_fails_verify P = Returned () \<longleftrightarrow>
      \<not> ed25519_verify P (verifying_key P b) (content_digest P (str_bytes ''some data''))
          (sign_content P a (str_bytes ''some data''))"
    using a b by (simp add: wrong_key_fails_verify_def Let_def public_key_hex_def
        verify_hex_is_err [OF sized(4-6)])
qed

end
