(* ===== verification/Cry_Integration.thy ===== *)
theory Cry_Integration
  imports Cry_Tests
begin

text \<open>
  The integration tests of \<open>main.rs\<close>, over the file system of the model: a test starts in any
  world in which nothing fails and its temporary directory is empty. The directory's removal at
  the end of a test is left out. The last section collects the whole test suite.
\<close>

section \<open>Helpers of the tests\<close>

text \<open>\<open>Path::join\<close> with a relative name.\<close>

definition path_join :: "string \<Rightarrow> string \<Rightarrow> string" where
  "path_join dir name =
     (if dir \<noteq> [] \<and> last dir \<noteq> CHR ''/'' then dir @ ''/'' @ name else dir @ name)"

definition passphrase :: "string \<Rightarrow> bytes" where
  "passphrase s = str_bytes s"

definition write_file :: "string \<Rightarrow> string \<Rightarrow> bytes \<Rightarrow> world \<Rightarrow> (string \<times> world) outcome" where
  "write_file dir name bs w =
    (let path = path_join dir name
     in run_then (unwrap_with (fs_write path bs w)) (\<lambda>(_, w). Returned (path, w)))"

section \<open>The tests\<close>

definition encrypt_decrypt_roundtrip_aes :: "crypto \<Rightarrow> string \<Rightarrow> world \<Rightarrow> unit outcome" where
  "encrypt_decrypt_roundtrip_aes P dir w =
    run_then (write_file dir ''plain.txt'' (str_bytes ''Hello from integration test!'') w) (\<lambda>(plain, w).
    let cipher = path_join dir ''out.cry'';
        recovered = path_join dir ''recovered.txt'';
        pass = passphrase ''hunter2''
    in run_then (unwrap_with (encrypt_file P plain cipher pass Aes256Gcm False w)) (\<lambda>(_, w).
       run_then (unwrap_with (decrypt_file P recovered cipher pass False w)) (\<lambda>(_, w).
       run_then (unwrap_with (fs_read plain w)) (\<lambda>(left, w).
       run_then (unwrap_with (fs_read recovered w)) (\<lambda>(right, w).
       assert_that (left = right))))))"

definition encrypt_decrypt_roundtrip_chacha :: "crypto \<Rightarrow> string \<Rightarrow> world \<Rightarrow> unit outcome" where
  "encrypt_decrypt_roundtrip_chacha P dir w =
    run_then (write_file dir ''plain.txt'' (str_bytes ''ChaCha integration test data.'') w) (\<lambda>(plain, w).
    let cipher = path_join dir ''out.cry'';
        recovered = path_join dir ''recovered.txt'';
        pass = passphrase ''passphrase123''
    in run_then (unwrap_with (encrypt_file P plain cipher pass ChaCha20Poly1305 False w)) (\<lambda>(_, w).
       run_then (unwrap_with (decrypt_file P recovered cipher pass False w)) (\<lambda>(_, w).
       run_then (unwrap_with (fs_read plain w)) (\<lambda>(left, w).
       run_then (unwrap_with (fs_read recovered w)) (\<lambda>(right, w).
       assert_that (left = right))))))"

definition encrypt_decrypt_empty_file :: "crypto \<Rightarrow> string \<Rightarrow> world \<Rightarrow> unit outcome" where
  "encrypt_decrypt_empty_file P dir w =
    run_then (write_file dir ''empty.txt'' [] w) (\<lambda>(plain, w).
    let cipher = path_join dir ''out.cry'';
        recovered = path_join dir ''recovered.txt'';
        pass = passphrase ''emptytest''
    in run_then (unwrap_with (encrypt_file P plain cipher pass Aes256Gcm False w)) (\<lambda>(_, w).
       run_then (unwrap_with (decrypt_file P recovered cipher pass False w)) (\<lambda>(_, w).
       run_then (unwrap_with (fs_read recovered w)) (\<lambda>(left, w).
       assert_that (left = [])))))"

definition refuses_to_overwrite_without_force :: "crypto \<Rightarrow> string \<Rightarrow> world \<Rightarrow> unit outcome" where
  "refuses_to_overwrite_without_force P dir w =
    run_then (write_file dir ''plain.txt'' (str_bytes ''data'') w) (\<lambda>(plain, w).
    let cipher = path_join dir ''out.cry'' in
    run_then (unwrap_with (fs_write cipher (str_bytes ''existing'') w)) (\<lambda>(_, w).
    let pass = passphrase ''test'' in
    run_then (unwrap_err (encrypt_file P plain cipher pass Aes256Gcm False w)) (\<lambda>(err, w).
    run_then (assert_that (case err of FileExists p \<Rightarrow> True | _ \<Rightarrow> False)) (\<lambda>_.
    run_then (unwrap_with (fs_read cipher w)) (\<lambda>(left, w).
    assert_that (left = str_bytes ''existing''))))))"

definition force_flag_allows_overwrite :: "crypto \<Rightarrow> string \<Rightarrow> world \<Rightarrow> unit outcome" where
  "force_flag_allows_overwrite P dir w =
    run_then (write_file dir ''plain.txt'' (str_bytes ''new data'') w) (\<lambda>(plain, w).
    let cipher = path_join dir ''out.cry'' in
    run_then (unwrap_with (fs_write cipher (str_bytes ''old'') w)) (\<lambda>(_, w).
    let pass = passphrase ''test'' in
    run_then (unwrap_with (encrypt_file P plain cipher pass Aes256Gcm True w)) (\<lambda>(_, w).
    run_then (unwrap_with (fs_read cipher w)) (\<lambda>(left, w).
    assert_that (left \<noteq> str_bytes ''old'')))))"

definition wrong_passphrase_rejected :: "crypto \<Rightarrow> string \<Rightarrow> world \<Rightarrow> unit outcome" where
  "wrong_passphrase_rejected P dir w =
    run_then (write_file dir ''plain.txt'' (str_bytes ''secret'') w) (\<lambda>(plain, w).
    let cipher = path_join dir ''out.cry'';
        recovered = path_join dir ''recovered.txt''
    in run_then (unwrap_with (encrypt_file P plain cipher (passphrase ''correct'') Aes256Gcm False w)) (\<lambda>(_, w).
       run_then (unwrap_err (decrypt_file P recovered cipher (passphrase ''wrong'') False w)) (\<lambda>(err, w).
       run_then (assert_that (case err of HeaderTampered \<Rightarrow> True | DecryptionFailed \<Rightarrow> True | _ \<Rightarrow> False)) (\<lambda>_.
       let (present, w) = path_exists recovered w
       in assert_that (\<not> present)))))"

definition no_tmp_file_left_on_failure :: "crypto \<Rightarrow> string \<Rightarrow> world \<Rightarrow> unit outcome" where
  "no_tmp_file_left_on_failure P dir w =
    run_then (write_file dir ''plain.txt'' (str_bytes ''test'') w) (\<lambda>(plain, w).
    let cipher = path_join dir ''out.cry'';
        recovered = path_join dir ''recovered.txt''
    in run_then (unwrap_with (encrypt_file P plain cipher (passphrase ''pw'') Aes256Gcm False w)) (\<lambda>(_, w).
       let (_, w) = decrypt_file P recovered cipher (passphrase ''bad'') False w;
           tmp = with_extension recovered ''plain.tmp'';
           (present, w) = path_exists tmp w
       in assert_that (\<not> present)))"

definition identity_sign_verify_full_roundtrip :: "crypto \<Rightarrow> unit outcome" where
  "identity_sign_verify_full_roundtrip P =
    (let pass = str_bytes ''integration-test-passphrase''
     in run_then (unwrap_result (identity_derive P pass ''test-ns'' 0 None)) (\<lambda>i.
        let content = str_bytes ''document content for signing'';
            sig = sign_content P i content;
            pub_hex = public_key_hex P i;
            sig_hex = signature_hex sig
        in run_then (verify_content_signature P pub_hex content sig_hex) (\<lambda>result.
           assert_that (\<not> is_err result))))"

definition identity_is_reproducible_across_derives :: "crypto \<Rightarrow> unit outcome" where
  "identity_is_reproducible_across_derives P =
    (let pass = str_bytes ''same-passphrase''
     in run_then (unwrap_result (identity_derive P pass ''ns'' 3 (Some ''child''))) (\<lambda>id1.
        run_then (unwrap_result (identity_derive P pass ''ns'' 3 (Some ''child''))) (\<lambda>id2.
        assert_that (public_key_hex P id1 = public_key_hex P id2))))"

section \<open>The temporary directory\<close>

definition empty_dir :: "string \<Rightarrow> world \<Rightarrow> bool" where
  "empty_dir dir w \<longleftrightarrow> dir \<noteq> [] \<and> last dir \<noteq> CHR ''/'' \<and> (\<forall>name. files w (path_join dir name) = None)"

lemma path_join_inject [simp]: "path_join dir a = path_join dir b \<longleftrightarrow> a = b"
  by (simp add: path_join_def)

text \<open>A plain name: what \<open>file_name\<close> finds at the end of a joined path.\<close>

definition plain_name :: "string \<Rightarrow> bool" where
  "plain_name n \<longleftrightarrow> CHR ''/'' \<notin> set n \<and> 2 \<le> length n \<and> n \<noteq> ''..''"

lemma strip_tail_plain:
  assumes "plain_name n"
  shows "strip_tail_rev (rev n @ r) = rev n @ r"
proof -
  obtain c d s where n: "rev n = c # d # s"
    using assms unfolding plain_name_def
    by (metis (no_types) Suc_le_length_iff length_rev numeral_2_eq_2)
  then have "c \<noteq> CHR ''/''" "d \<noteq> CHR ''/''"
    using assms unfolding plain_name_def by (metis list.set_intros set_rev)+
  with n show ?thesis by simp
qed

lemma joined_path:
  assumes "plain_name n" and "dir \<noteq> []" and "last dir \<noteq> CHR ''/''"
  shows "path_tail (path_join dir n) = n" and "path_dir (path_join dir n) = dir @ ''/''"
proof -
  have rev: "rev (path_join dir n) = rev n @ CHR ''/'' # rev dir"
    using assms(2,3) by (simp add: path_join_def)
  have clean: "x \<in> set (rev n) \<Longrightarrow> x \<noteq> CHR ''/''" for x
    using assms(1) by (auto simp: plain_name_def)
  show "path_tail (path_join dir n) = n"
    unfolding path_tail_def rev strip_tail_plain [OF assms(1)]
    using clean by (subst takeWhile_append2) auto
  show "path_dir (path_join dir n) = dir @ ''/''"
    unfolding path_dir_def rev strip_tail_plain [OF assms(1)]
    using clean by (subst dropWhile_append2) auto
qed

lemma joined_file_name:
  assumes "plain_name n" and "empty_dir dir w"
  shows "file_name (path_join dir n) = Some n"
    and "with_extension (path_join dir n) ext = path_join dir (file_stem_of n @ ''.'' @ ext)"
  using assms joined_path [of n dir]
  by (auto simp: empty_dir_def file_name_def plain_name_def with_extension_def path_join_def)

lemma test_names [simp]:
  "plain_name ''plain.txt''" "plain_name ''empty.txt''" "plain_name ''out.cry''" "plain_name ''recovered.txt''"
  by (simp_all add: plain_name_def)

lemma test_stems [simp]:
  "file_stem_of ''out.cry'' = ''out''" "file_stem_of ''recovered.txt'' = ''recovered''"
  by code_simp+

lemma test_paths:
  assumes "empty_dir dir w"
  shows "file_name (path_join dir ''out.cry'') = Some ''out.cry''"
    and "file_name (path_join dir ''recovered.txt'') = Some ''recovered.txt''"
    and "cry_tmp (path_join dir ''out.cry'') = path_join dir ''out.cry.tmp''"
    and "plain_tmp (path_join dir ''recovered.txt'') = path_join dir ''recovered.plain.tmp''"
  using joined_file_name [OF _ assms] by simp_all

section \<open>Why they pass\<close>

lemma serene_write:
  assumes "serene w" and "file_name p = Some n"
  obtains w' e where "fs_write p bs w = (Inr (), w')" and "serene w'"
    and "files w' = (files w)(p := Some e)" and "contents e = bs"
proof -
  define e where "e = \<lparr>contents = bs, mode = (case files w p of None \<Rightarrow> create_mode w | Some x \<Rightarrow> mode x)\<rparr>"
  have "calm w" using assms(1) by (simp add: serene_def)
  with that [of "set_file p e w" e] assms show ?thesis by (simp add: e_def)
qed

lemma serene_read:
  assumes "serene w" and "files w p = Some e"
  shows "fs_read p w = (Inr (contents e), w)" and "path_exists p w = (True, w)"
  using assms by (simp_all add: serene_def fs_read_def)

text \<open>What every encrypting test has after writing its plaintext and encrypting it.\<close>

lemma test_encrypted:
  assumes P: "primitives_work P" and w: "serene w" and dir: "empty_dir dir w"
    and "plain_name n" and "n \<notin> {''out.cry'', ''out.cry.tmp'', ''recovered.txt'', ''recovered.plain.tmp''}"
    and "length bs < 2 ^ 64" and "length pass < 2 ^ 32"
  obtains w1 w2 e c h key body where "write_file dir n bs w = Returned (path_join dir n, w1)"
    and "encrypt_file P (path_join dir n) (path_join dir ''out.cry'') pass algo False w1 = (Inr (), w2)"
    and "serene w2" and "files w2 = (files w)(path_join dir n := Some e, path_join dir ''out.cry'' := Some c)"
    and "contents e = bs" and "header_wf h" and "derive_key P pass (hdr_salt h) = Inr key"
    and "contents c = header_image P key h @ body" and "sealed_file P key h (pieces bs) body []"
proof -
  note names = test_paths [OF dir]
  obtain w1 e where w1: "fs_write (path_join dir n) bs w = (Inr (), w1)" "serene w1"
      "files w1 = (files w)(path_join dir n := Some e)" "contents e = bs"
    by (rule serene_write [OF w joined_file_name(1) [OF assms(4) dir]])
  have none: "files w (path_join dir m) = None" for m using dir by (simp add: empty_dir_def)
  have pre: "files w1 (path_join dir n) = Some e" "length (contents e) < 2 ^ 64"
      "path_join dir n \<noteq> cry_tmp (path_join dir ''out.cry'')" "files w1 (path_join dir ''out.cry'') = None \<or> False"
    using w1(3,4) assms(5,6) none by (auto simp: names)
  obtain w2 c h key body where
    enc: "encrypt_file P (path_join dir n) (path_join dir ''out.cry'') pass algo False w1 = (Inr (), w2)"
      "serene w2" "files w2 = (files w1)(path_join dir ''out.cry.tmp'' := None, path_join dir ''out.cry'' := Some c)"
      "header_wf h" "derive_key P pass (hdr_salt h) = Inr key" "contents c = header_image P key h @ body"
      "sealed_file P key h (pieces bs) body []"
    using encrypt_file_serene [OF P w1(2) assms(7) pre(1-3) names(1) pre(4), of algo] w1(4)
    by (auto simp: names(3))
  have "files w2 = (files w)(path_join dir n := Some e, path_join dir ''out.cry'' := Some c)"
    using enc(3) w1(3) none assms(5) by (auto simp: fun_eq_iff)
  with that [OF _ enc(1,2) _ w1(4) enc(4-7)] w1(1) show ?thesis
    by (simp add: write_file_def)
qed

lemma there_and_back:
  assumes "primitives_work P" "serene w" "empty_dir dir w"
    and "plain_name n" "n \<notin> {''out.cry'', ''out.cry.tmp'', ''recovered.txt'', ''recovered.plain.tmp''}"
    and "length bs < 2 ^ 64" "length pass < 2 ^ 32"
  obtains w1 w2 w3 where "write_file dir n bs w = Returned (path_join dir n, w1)"
    and "encrypt_file P (path_join dir n) (path_join dir ''out.cry'') pass algo False w1 = (Inr (), w2)"
    and "decrypt_file P (path_join dir ''recovered.txt'') (path_join dir ''out.cry'') pass False w2 = (Inr (), w3)"
    and "fs_read (path_join dir n) w3 = (Inr bs, w3)"
    and "fs_read (path_join dir ''recovered.txt'') w3 = (Inr bs, w3)"
proof -
  note names = test_paths [OF assms(3)]
  obtain w1 w2 e c h key body where enc: "write_file dir n bs w = Returned (path_join dir n, w1)"
      "encrypt_file P (path_join dir n) (path_join dir ''out.cry'') pass algo False w1 = (Inr (), w2)"
      "serene w2" "files w2 = (files w)(path_join dir n := Some e, path_join dir ''out.cry'' := Some c)"
      "contents e = bs" "header_wf h" "derive_key P pass (hdr_salt h) = Inr key"
      "contents c = header_image P key h @ body" "sealed_file P key h (pieces bs) body []"
    using test_encrypted [OF assms] by metis
  have none: "files w (path_join dir m) = None" for m using assms(3) by (simp add: empty_dir_def)
  have pre: "files w2 (path_join dir ''out.cry'') = Some c" "contents c = header_image P key h @ body @ []"
      "plain_tmp (path_join dir ''recovered.txt'') \<noteq> path_join dir ''out.cry''"
      "files w2 (path_join dir ''recovered.txt'') = None \<or> False"
    using enc(4,8) none assms(5) by (auto simp: names)
  obtain w3 r where dec:
    "decrypt_file P (path_join dir ''recovered.txt'') (path_join dir ''out.cry'') pass False w2 = (Inr (), w3)"
    "serene w3" "files w3 = (files w2)(path_join dir ''recovered.plain.tmp'' := None,
       path_join dir ''recovered.txt'' := Some r)" "contents r = bs"
    using decrypt_file_serene [OF assms(1) enc(3,6,7) pre(1,2) enc(9) piece_lengths_pieces pre(3) names(2) pre(4)]
    by (auto simp: names(4))
  have "files w3 (path_join dir n) = Some e" "files w3 (path_join dir ''recovered.txt'') = Some r"
    using dec(3) enc(4) assms(5) by auto
  with serene_read [OF dec(2)] enc(5) dec(4) that [OF enc(1,2) dec(1)] show ?thesis by metis
qed

lemma roundtrip_tests_pass:
  assumes "primitives_work P" "serene w" "empty_dir dir w"
  shows "encrypt_decrypt_roundtrip_aes P dir w = Returned ()"
    and "encrypt_decrypt_roundtrip_chacha P dir w = Returned ()"
    and "encrypt_decrypt_empty_file P dir w = Returned ()"
proof -
  note run = there_and_back [OF assms]
  show "encrypt_decrypt_roundtrip_aes P dir w = Returned ()"
    by (rule run [of "''plain.txt''" "str_bytes ''Hello from integration test!''" "passphrase ''hunter2''" Aes256Gcm])
      (simp_all add: encrypt_decrypt_roundtrip_aes_def passphrase_def)
  show "encrypt_decrypt_roundtrip_chacha P dir w = Returned ()"
    by (rule run [of "''plain.txt''" "str_bytes ''ChaCha integration test data.''" "passphrase ''passphrase123''"
          ChaCha20Poly1305])
      (simp_all add: encrypt_decrypt_roundtrip_chacha_def passphrase_def)
  show "encrypt_decrypt_empty_file P dir w = Returned ()"
    by (rule run [of "''empty.txt''" "[]" "passphrase ''emptytest''" Aes256Gcm])
      (simp_all add: encrypt_decrypt_empty_file_def passphrase_def)
qed

lemma missing_file: "files w p = None \<Longrightarrow> \<not> fst (path_exists p w)"
  using touches_none [OF touches_syscall [of "{}" w]]
  by (auto simp: path_exists_def split: prod.splits sum.splits)

lemma overwrite_tests_pass:
  assumes P: "primitives_work P" and w: "serene w" and dir: "empty_dir dir w"
  shows "refuses_to_overwrite_without_force P dir w = Returned ()"
    and "force_flag_allows_overwrite P dir w = Returned ()"
proof -
  note names = test_paths [OF dir]
  have none: "files w (path_join dir m) = None" for m using dir by (simp add: empty_dir_def)
  have plain: "file_name (path_join dir ''plain.txt'') = Some ''plain.txt''"
    by (rule joined_file_name(1) [OF test_names(1) dir])
  obtain w1 e where w1: "fs_write (path_join dir ''plain.txt'') (str_bytes ''data'') w = (Inr (), w1)" "serene w1"
    by (rule serene_write [OF w plain])
  obtain w2 c where w2: "fs_write (path_join dir ''out.cry'') (str_bytes ''existing'') w1 = (Inr (), w2)" "serene w2"
      "files w2 = (files w1)(path_join dir ''out.cry'' := Some c)" "contents c = str_bytes ''existing''"
    by (rule serene_write [OF w1(2) names(1)])
  have c: "files w2 (path_join dir ''out.cry'') = Some c" using w2(3) by simp
  have "encrypt_file P (path_join dir ''plain.txt'') (path_join dir ''out.cry'') (passphrase ''test'')
      Aes256Gcm False w2 = (Inl (FileExists (path_join dir ''out.cry'')), w2)"
    using encrypt_file_guard [of "path_join dir ''out.cry''" w2] serene_read(2) [OF w2(2) c] by simp
  then show "refuses_to_overwrite_without_force P dir w = Returned ()"
    using w1(1) w2(1,4) serene_read(1) [OF w2(2) c]
    by (simp add: refuses_to_overwrite_without_force_def write_file_def Let_def)
  obtain v1 f where v1: "fs_write (path_join dir ''plain.txt'') (str_bytes ''new data'') w = (Inr (), v1)" "serene v1"
      "files v1 = (files w)(path_join dir ''plain.txt'' := Some f)" "contents f = str_bytes ''new data''"
    by (rule serene_write [OF w plain])
  obtain v2 d where v2: "fs_write (path_join dir ''out.cry'') (str_bytes ''old'') v1 = (Inr (), v2)" "serene v2"
      "files v2 = (files v1)(path_join dir ''out.cry'' := Some d)"
    by (rule serene_write [OF v1(2) names(1)])
  have pre: "length (passphrase ''test'') < 2 ^ 32" "files v2 (path_join dir ''plain.txt'') = Some f"
      "length (contents f) < 2 ^ 64" "path_join dir ''plain.txt'' \<noteq> cry_tmp (path_join dir ''out.cry'')"
      "files v2 (path_join dir ''out.cry'') = None \<or> True"
    using v1(3,4) v2(3) by (simp_all add: passphrase_def names)
  obtain v3 g h key body where enc: "encrypt_file P (path_join dir ''plain.txt'') (path_join dir ''out.cry'')
        (passphrase ''test'') Aes256Gcm True v2 = (Inr (), v3)" "serene v3"
      "files v3 (path_join dir ''out.cry'') = Some g" "header_wf h" "contents g = header_image P key h @ body"
    using encrypt_file_serene [OF P v2(2) pre(1-4) names(1) pre(5), of Aes256Gcm] by auto
  have "hashes_sized P" using P by (simp add: primitives_work_def)
  then have "length (contents g) \<noteq> length (str_bytes ''old'')"
    using enc(4,5) length_header_image [of P h key] by (simp add: header_consts)
  then have "contents g \<noteq> str_bytes ''old''" by metis
  then show "force_flag_allows_overwrite P dir w = Returned ()"
    using v1(1) v2(1) enc(1) serene_read(1) [OF enc(2,3)]
    by (simp add: force_flag_allows_overwrite_def write_file_def Let_def)
qed

text \<open>A finished output leaves no temporary file, as it has been renamed.\<close>

lemma finish_output_moves:
  assumes "finish_output tmp dest result w = (Inr u, w')" and "tmp \<noteq> dest"
  shows "files w' tmp = None"
proof -
  obtain x where "result = Inr x" using assms(1) by (cases result) (auto simp: finish_output_def)
  with assms(1) obtain v s n where "rename tmp dest w = (Inr v, s)" "metadata_len dest s = (Inr n, w')"
    by (auto simp: finish_output_def result_iffs)
  moreover from this have "files w' = files s"
    using touches_none [of s w'] touches_metadata_len [of "{}" s dest] by simp
  ultimately show ?thesis using rename_Inr assms(2) by fastforce
qed

lemma decrypt_success_moves:
  assumes "decrypt_file P p c pass force w = (Inr u, w')" and "file_name p = Some n"
  shows "files w' (plain_tmp p) = None"
  using assms
  by (auto simp: decrypt_file_def decrypt_with_key_def Let_def split_beta result_iffs
      intro: finish_output_moves [OF _ tmp_neq(2)])

lemma no_tmp_test_passes:
  assumes "primitives_work P" "serene w" "empty_dir dir w"
  shows "no_tmp_file_left_on_failure P dir w = Returned ()"
proof -
  note names = test_paths [OF assms(3)]
  let ?r = "path_join dir ''recovered.txt''" and ?c = "path_join dir ''out.cry''"
  have small: "length (str_bytes ''test'') < 2 ^ 64" "length (passphrase ''pw'') < 2 ^ 32"
    by (simp_all add: passphrase_def)
  obtain w1 w2 e c where enc:
    "write_file dir ''plain.txt'' (str_bytes ''test'') w = Returned (path_join dir ''plain.txt'', w1)"
    "encrypt_file P (path_join dir ''plain.txt'') ?c (passphrase ''pw'') Aes256Gcm False w1 = (Inr (), w2)"
    "serene w2" "files w2 = (files w)(path_join dir ''plain.txt'' := Some e, ?c := Some c)"
    by (rule test_encrypted [OF assms test_names(1) _ small, of Aes256Gcm]) auto
  obtain res w3 where dec: "decrypt_file P ?r ?c (passphrase ''bad'') False w2 = (res, w3)" by fastforce
  have "files w2 (plain_tmp ?r) = None" using enc(4) assms(3) by (simp add: names empty_dir_def)
  then have "files w3 (plain_tmp ?r) = None"
    using decrypt_failure_calm [of w2] decrypt_success_moves [OF _ names(2)] dec enc(3)
    by (cases res) (fastforce simp: serene_def)+
  from missing_file [OF this] show ?thesis
    using enc(1,2) dec by (simp add: no_tmp_file_left_on_failure_def split_beta Let_def)
qed

text \<open>Passphrases whose keys give different tags to every header.\<close>

definition tags_separate :: "crypto \<Rightarrow> bytes \<Rightarrow> bytes \<Rightarrow> bool" where
  "tags_separate P pass pass' \<longleftrightarrow>
     (\<forall>h key key'. derive_key P pass (hdr_salt h) = Inr key \<longrightarrow> derive_key P pass' (hdr_salt h) = Inr key' \<longrightarrow>
        compute_hmac P (pre_hmac_bytes h) key' \<noteq> compute_hmac P (pre_hmac_bytes h) key)"

lemma decrypt_wrong_passphrase:
  assumes P: "primitives_work P" and w: "serene w" and "header_wf h" "derive_key P pass (hdr_salt h) = Inr key"
    and "files w c = Some ce" "contents ce = header_image P key h @ body"
    and "length pass' < 2 ^ 32" "tags_separate P pass pass'" "files w p = None"
  shows "decrypt_file P p c pass' force w = (Inl HeaderTampered, w)"
proof -
  have calm: "calm w" "faithful w" using w by (simp_all add: serene_def)
  have sized: "hashes_sized P" using P by (simp add: primitives_work_def)
  let ?raw = "header_image P key h" and ?r = "deliver w (contents ce)"
  have len: "length ?raw = HEADER_LEN" by (rule length_header_image [OF sized assms(3)])
  have "clean ?r" "pending ?r = ?raw @ body" using calm(2) assms(6) by (simp_all add: faithful_def)
  from rx.rx_prefix [OF this len] obtain r' where r': "read_exact HEADER_LEN ?r = (Inr ?raw, r')" by blast
  have "8 \<le> length (hdr_salt h)" using assms(3) by (simp add: header_wf_def SALT_LEN_def)
  with derive_key_works [OF _ assms(7), of P "hdr_salt h"] P obtain key' where
    key': "derive_key P pass' (hdr_salt h) = Inr key'" by (auto simp: primitives_work_def)
  have "?raw \<noteq> []" using len by (auto simp: header_consts)
  then have "clean [Data ?raw]" "pending [Data ?raw] = ?raw" by simp_all
  moreover have "header_parse P key' ?raw = Inl HeaderTampered"
    using header_parse_any_key [OF assms(3) sized, of key' key "[]"] assms(4,8) key'
    by (auto simp: tags_separate_def)
  ultimately have "fst (header_read P key' [Data ?raw]) = Inl HeaderTampered"
    by (metis header_read_parse fst_conv)
  then show ?thesis
    using calm(1) assms(5,9) r' key' salt_of_image [OF assms(3)]
    by (auto simp: decrypt_file_def decrypt_with_key_def Let_def)
qed

lemma wrong_passphrase_test_passes:
  assumes "primitives_work P" "serene w" "empty_dir dir w"
    and "tags_separate P (passphrase ''correct'') (passphrase ''wrong'')"
  shows "wrong_passphrase_rejected P dir w = Returned ()"
proof -
  let ?r = "path_join dir ''recovered.txt''" and ?c = "path_join dir ''out.cry''"
  have "length (str_bytes ''secret'') < 2 ^ 64" "length (passphrase ''correct'') < 2 ^ 32"
    "length (passphrase ''wrong'') < 2 ^ 32" by (simp_all add: passphrase_def)
  note small = this
  obtain w1 w2 e c h key body where enc:
    "write_file dir ''plain.txt'' (str_bytes ''secret'') w = Returned (path_join dir ''plain.txt'', w1)"
    "encrypt_file P (path_join dir ''plain.txt'') ?c (passphrase ''correct'') Aes256Gcm False w1 = (Inr (), w2)"
    "serene w2" "files w2 = (files w)(path_join dir ''plain.txt'' := Some e, ?c := Some c)"
    "header_wf h" "derive_key P (passphrase ''correct'') (hdr_salt h) = Inr key"
    "contents c = header_image P key h @ body"
    by (rule test_encrypted [OF assms(1-3) test_names(1) _ small(1,2), of Aes256Gcm]) auto
  have "files w2 ?c = Some c" "files w2 ?r = None" using enc(4) assms(3) by (simp_all add: empty_dir_def)
  from decrypt_wrong_passphrase [OF assms(1) enc(3,5,6) this(1) enc(7) small(3) assms(4) this(2)]
    missing_file [OF this(2)] show ?thesis
    using enc(1,2) by (simp add: wrong_passphrase_rejected_def split_beta Let_def)
qed

section \<open>The suite\<close>

text \<open>The tests that need no more of the primitives than their documented behaviour.\<close>

definition functional_tests :: "crypto \<Rightarrow> string \<Rightarrow> world \<Rightarrow> (string \<times> unit outcome) list" where
  "functional_tests P dir w =
    [(''roundtrip_aes_empty'', roundtrip_aes_empty P w),
     (''roundtrip_aes_small'', roundtrip_aes_small P w),
     (''roundtrip_chacha_small'', roundtrip_chacha_small P w),
     (''roundtrip_aes_multi_chunk'', roundtrip_aes_multi_chunk P w),
     (''roundtrip_chacha_multi_chunk'', roundtrip_chacha_multi_chunk P w),
     (''nonce_counter_no_collision'', nonce_counter_no_collision),
     (''same_passphrase_same_key'', same_passphrase_same_key P),
     (''sign_verify_roundtrip'', sign_verify_roundtrip_test P),
     (''fingerprint_is_sha256_format'', fingerprint_is_sha256_format P),
     (''ssh_line_format'', ssh_line_format P),
     (''hex_roundtrip'', hex_roundtrip_test),
     (''encrypt_decrypt_roundtrip_aes'', encrypt_decrypt_roundtrip_aes P dir w),
     (''encrypt_decrypt_roundtrip_chacha'', encrypt_decrypt_roundtrip_chacha P dir w),
     (''encrypt_decrypt_empty_file'', encrypt_decrypt_empty_file P dir w),
     (''refuses_to_overwrite_without_force'', refuses_to_overwrite_without_force P dir w),
     (''force_flag_allows_overwrite'', force_flag_allows_overwrite P dir w),
     (''no_tmp_file_left_on_failure'', no_tmp_file_left_on_failure P dir w),
     (''identity_sign_verify_full_roundtrip'', identity_sign_verify_full_roundtrip P),
     (''identity_is_reproducible_across_derives'', identity_is_reproducible_across_derives P)]"

lemma stream_tests_pass:
  assumes "primitives_work P"
  shows "roundtrip_aes_empty P w = Returned ()" and "roundtrip_aes_small P w = Returned ()"
    and "roundtrip_chacha_small P w = Returned ()" and "roundtrip_aes_multi_chunk P w = Returned ()"
    and "roundtrip_chacha_multi_chunk P w = Returned ()"
  unfolding roundtrip_aes_empty_def roundtrip_aes_small_def roundtrip_chacha_small_def
    roundtrip_aes_multi_chunk_def roundtrip_chacha_multi_chunk_def
  by (rule roundtrip_passes [OF assms]; simp add: CHUNK_SIZE_def)+

lemma full_identity_tests_pass:
  assumes P: "primitives_work P" and "ed25519_lawful P"
  shows "identity_sign_verify_full_roundtrip P = Returned ()"
    and "identity_is_reproducible_across_derives P = Returned ()"
proof -
  obtain i where "identity_derive P (str_bytes ''integration-test-passphrase'') ''test-ns'' 0 None = Inr i"
      "length (signing_key i) = 32"
    by (rule identity_derive_works [OF P, of "str_bytes ''integration-test-passphrase''"]) simp_all
  then show "identity_sign_verify_full_roundtrip P = Returned ()"
    using signed_content_verifies [OF assms(2)] by (simp add: identity_sign_verify_full_roundtrip_def Let_def)
next
  obtain i where "identity_derive P (str_bytes ''same-passphrase'') ''ns'' 3 (Some ''child'') = Inr i"
    by (rule identity_derive_works [OF P, of "str_bytes ''same-passphrase''"]) simp_all
  then show "identity_is_reproducible_across_derives P = Returned ()"
    by (simp add: identity_is_reproducible_across_derives_def Let_def)
qed

text \<open>Primitives whose tags carry the key, for the witness.\<close>

definition keyed_crypto :: crypto where
  "keyed_crypto = demo_crypto\<lparr>hmac_sha256 := \<lambda>k m. pad 32 k\<rparr>"

lemma keyed_primitives_work: "primitives_work keyed_crypto"
  using demo_ciphers_lawful demo_hashes_sized demo_argon2_works
  by (simp add: primitives_work_def keyed_crypto_def ciphers_lawful_def hashes_sized_def argon2_works_def
      argon2_sized_def derive_key_def)

lemma keyed_key: "derive_key keyed_crypto pass salt = Inr (pad 32 (rev pass @ salt))"
  by (simp add: derive_key_def keyed_crypto_def demo_crypto_def KEY_LEN_def)

lemma keyed_tags_separate: "tags_separate keyed_crypto (passphrase ''correct'') (passphrase ''wrong'')"
proof -
  have "compute_hmac keyed_crypto m (pad 32 bs) = pad 32 bs" for m bs
    by (simp add: compute_hmac_def derive_hmac_subkey_def keyed_crypto_def pad_full)
  moreover have "pad 32 (rev (passphrase ''correct'') @ s) ! 0 \<noteq> pad 32 (rev (passphrase ''wrong'') @ s) ! 0" for s
    by (simp add: pad_def passphrase_def str_bytes_def)
  ultimately show ?thesis by (auto simp: tags_separate_def keyed_key) metis
qed

section \<open>Properties\<close>

text \<open>C20. The repository's functional tests pass for every implementation of the primitives that
  behaves as documented, every random source, every fragmentation of file reads and every empty
  temporary directory: the stream, nonce, signature, identity, format, hexadecimal and file tests
  all return without a failed assertion, \<open>unwrap\<close>, index or slice.\<close>

theorem functional_tests_pass:
  assumes "primitives_work P" and "ed25519_lawful P" and "serene w" and "empty_dir dir w"
  shows "list_all (\<lambda>(name, result). result = Returned ()) (functional_tests P dir w)"
  using stream_tests_pass [OF assms(1)] nonce_test_passes identity_tests_pass [OF assms(1,2)]
    roundtrip_tests_pass [OF assms(1,3,4)] overwrite_tests_pass [OF assms(1,3,4)]
    no_tmp_test_passes [OF assms(1,3,4)] full_identity_tests_pass [OF assms(1,2)]
  by (simp add: functional_tests_def)

theorem functional_tests_pass_witness:
  "list_all (\<lambda>(name, result). result = Returned ()) (functional_tests demo_crypto ''/tmp/x'' (sample_world []))"
  by (rule functional_tests_pass [OF demo_primitives_work demo_ed25519_lawful sample_serene(1)])
    (simp add: empty_dir_def sample_files)

text \<open>The tests that something is rejected rest on the strength of the primitives, and on
  nothing else of the program: the tampering test passes exactly when the cipher does not open the
  flipped ciphertext, the wrong-passphrase test of the header exactly when the two keys give
  different tags, and the one over files whenever the tags differ.\<close>

lemma rejection_tests_rest_on_primitives:
  assumes "primitives_work P"
    and "make_key_and_header P Aes256Gcm (str_bytes ''secret data'') w = Returned (key, h, aad)"
    and "encrypt_chunk P (str_bytes ''secret data'') key (chunk_nonce (hdr_nonce h) 0) Aes256Gcm
      (chunk_aad aad 0) = Inr ct"
    and "derive_key P (str_bytes ''correct'') (hdr_salt h) = Inr k"
    and "derive_key P (str_bytes ''wrong'') (hdr_salt h) = Inr k'"
    and "serene v" and "empty_dir dir v"
  shows "(tamper_detection P w = Returned () \<longleftrightarrow>
      is_err (decrypt_chunk P (ct[1 := xor (ct ! 1) 0xFF]) key (chunk_nonce (hdr_nonce h) 0) Aes256Gcm
        (chunk_aad aad 0))) \<and>
    (wrong_passphrase_fails P w = Returned () \<longleftrightarrow>
      compute_hmac P (pre_hmac_bytes h) k' \<noteq> compute_hmac P (pre_hmac_bytes h) k) \<and>
    (tags_separate P (passphrase ''correct'') (passphrase ''wrong'') \<longrightarrow>
      wrong_passphrase_rejected P dir v = Returned ())"
proof (intro conjI impI)
  show "tamper_detection P w = Returned () \<longleftrightarrow>
      is_err (decrypt_chunk P (ct[1 := xor (ct ! 1) 0xFF]) key (chunk_nonce (hdr_nonce h) 0) Aes256Gcm
        (chunk_aad aad 0))"
    by (rule tamper_detection_iff [OF assms(1-3)])
next
  obtain salt w1 nonce w2 where draws: "fill_bytes SALT_LEN w = (salt, w1)" "fill_bytes NONCE_LEN w1 = (nonce, w2)"
    by fastforce
  have "h = \<lparr>hdr_algo = Aes256Gcm, hdr_salt = salt, hdr_nonce = nonce,
      hdr_chunk_count = div_ceil (word_of_nat 11) (word_of_nat CHUNK_SIZE)\<rparr>"
    using assms(2) draws
    by (simp add: make_key_and_header_def Let_def run_then_def unwrap_result_def split: sum.splits)
  moreover have "div_ceil (word_of_nat 11) (word_of_nat CHUNK_SIZE) = 1"
    using div_ceil_pieces [of "replicate 11 0"] small_pieces [of "replicate 11 0"] by (simp add: CHUNK_SIZE_def)
  ultimately have h: "h = \<lparr>hdr_algo = Aes256Gcm, hdr_salt = salt, hdr_nonce = nonce, hdr_chunk_count = 1\<rparr>"
    by simp
  with wrong_passphrase_fails_iff [OF assms(1) draws _ _ h, of k k'] assms(4,5)
  show "wrong_passphrase_fails P w = Returned () \<longleftrightarrow>
      compute_hmac P (pre_hmac_bytes h) k' \<noteq> compute_hmac P (pre_hmac_bytes h) k" by simp
next
  assume "tags_separate P (passphrase ''correct'') (passphrase ''wrong'')"
  then show "wrong_passphrase_rejected P dir v = Returned ()"
    by (rule wrong_passphrase_test_passes [OF assms(1,6,7)])
qed

end
