(* ===== verification/Cry_Terminal.thy ===== *)
theory Cry_Terminal
  imports Cry_Cli
begin

text \<open>
  The text \<open>src/main.rs\<close> prints around its commands: the formatting helpers, the report of
  \<open>sign\<close> and the two command lines it suggests to the user. Texts are UTF-8 bytes, as
  everywhere; labels are ASCII, so that padding by characters is padding by bytes.
\<close>

section \<open>Formatting helpers\<close>

definition newline :: string where
  "newline = [CHR 0x0A]"

text \<open>\<open>\x1b[\<dots>m\<close>, and a text between dim and normal.\<close>

definition escape :: "string \<Rightarrow> string" where
  "escape code = [CHR 0x1B, CHR ''[''] @ code @ ''m''"

definition dim :: "string \<Rightarrow> string" where
  "dim s = escape ''2'' @ s @ escape ''0''"

text \<open>\<open>{:<n}\<close>.\<close>

definition pad_right :: "nat \<Rightarrow> string \<Rightarrow> string" where
  "pad_right n s = s @ replicate (n - length s) (CHR '' '')"

definition padlock :: string where
  "padlock = [CHR 0xF0, CHR 0x9F, CHR 0x94, CHR 0x90]"

definition bar :: string where
  "bar = [CHR 0xE2, CHR 0x94, CHR 0x80]"

definition banner :: "string \<Rightarrow> string" where
  "banner ver = newline @ ''  cry '' @ padlock @ ''  '' @ dim (''v'' @ ver) @ newline @ newline"

definition section_line :: "string \<Rightarrow> string \<Rightarrow> string \<Rightarrow> string" where
  "section_line icon label value =
     ''  '' @ icon @ ''  '' @ dim (pad_right 14 label) @ ''  '' @ value @ newline"

definition divider :: string where
  "divider = ''  '' @ dim (concat (replicate 56 bar)) @ newline"

definition kv :: "string \<Rightarrow> string \<Rightarrow> string" where
  "kv label value = ''  '' @ dim (pad_right 18 label) @ ''  '' @ value @ newline"

section \<open>Suggested command lines\<close>

text \<open>The last line of the report of \<open>sign\<close>, and the report from the derived key on.\<close>

definition verify_hint :: "string \<Rightarrow> string \<Rightarrow> string \<Rightarrow> string" where
  "verify_hint file sig_hex public_hex =
     ''  cry verify -f '' @ file @ '' -s '' @ sig_hex @ '' -k '' @ public_hex"

definition sign_report :: "string \<Rightarrow> string \<Rightarrow> string \<Rightarrow> string" where
  "sign_report public_hex file sig_hex =
     divider @ kv ''Public key'' public_hex @ kv ''File'' file @ kv ''Signature'' sig_hex @ newline @
     ''  '' @ dim ''Verify with:'' @ newline @ verify_hint file sig_hex public_hex @ newline"

text \<open>The line of \<open>ssh\<close> that says how to get the public key for the server: the command
  between its colours, then the line.\<close>

definition derive_hint :: "string \<Rightarrow> string" where
  "derive_hint namespace = ''   cry derive -n '' @ namespace @ '' --openssh''"

definition ssh_hint :: "string \<Rightarrow> string" where
  "ssh_hint namespace = ''  '' @ dim (derive_hint namespace) @ newline"

text \<open>The value of a printed row can be read back.\<close>

lemma kv_inject: "length a = length b \<Longrightarrow> kv a v = kv b u \<longleftrightarrow> a = b \<and> v = u"
  by (simp add: kv_def dim_def pad_right_def)

section \<open>The shell\<close>

text \<open>
  A line of letters, digits, \<open>/\<close>, \<open>.\<close>, \<open>_\<close>, \<open>-\<close> and blanks is cut at its blanks
  by every shell; of other lines nothing is said.
\<close>

definition shell_char :: "char \<Rightarrow> bool" where
  "shell_char c \<longleftrightarrow> (let n = of_char c :: nat in
     48 \<le> n \<and> n \<le> 57 \<or> 65 \<le> n \<and> n \<le> 90 \<or> 97 \<le> n \<and> n \<le> 122) \<or> c \<in> set ''/._-''"

text \<open>\<open>w\<close> is the word being read.\<close>

fun cut_words :: "string \<Rightarrow> string \<Rightarrow> string list" where
  "cut_words w [] = (if w = [] then [] else [w])"
| "cut_words w (c # s) =
     (if c = CHR '' '' then (if w = [] then cut_words [] s else w # cut_words [] s)
      else cut_words (w @ [c]) s)"

definition shell_words :: "string \<Rightarrow> string list option" where
  "shell_words line =
     (if list_all (\<lambda>c. shell_char c \<or> c = CHR '' '') line then Some (cut_words [] line) else None)"

lemma cut_words_plain: "CHR '' '' \<notin> set s \<Longrightarrow> cut_words w (s @ r) = cut_words (w @ s) r"
  by (induction s arbitrary: w) auto

lemma shell_char_blank [simp]: "\<not> shell_char (CHR '' '')"
  by (simp add: shell_char_def)

definition shell_word :: "string \<Rightarrow> bool" where
  "shell_word s \<longleftrightarrow> s \<noteq> [] \<and> list_all shell_char s"

lemma cut_words_word:
  assumes "shell_word s"
  shows "cut_words [] (s @ CHR '' '' # r) = s # cut_words [] r" and "cut_words [] s = [s]"
proof -
  have blank: "CHR '' '' \<notin> set s" using assms by (auto simp: shell_word_def list_all_iff)
  have s: "s \<noteq> []" using assms by (simp add: shell_word_def)
  show "cut_words [] (s @ CHR '' '' # r) = s # cut_words [] r"
    using cut_words_plain [OF blank, of "[]" "CHR '' '' # r"] s by simp
  show "cut_words [] s = [s]" using cut_words_plain [OF blank, of "[]" "[]"] s by simp
qed

lemma hex_shell_word: "bs \<noteq> [] \<Longrightarrow> shell_word (bytes_to_hex bs)"
proof -
  have digit: "shell_char (hex_digit n)" if "n < 16" for n
    using that by (auto simp: shell_char_def hex_digit_def of_char_digit Let_def)
  have pair: "list_all shell_char (show_hex2 b)" for b
  proof -
    have "unat b div 16 < 16" using unat_byte_less [of b] by simp
    then show ?thesis by (simp add: show_hex2_def digit)
  qed
  assume "bs \<noteq> []"
  then have "bytes_to_hex bs \<noteq> []" by (metis length_bytes_to_hex length_0_conv mult_eq_0_iff zero_neq_numeral)
  moreover have "list_all shell_char (bytes_to_hex bs)"
    using pair by (auto simp: bytes_to_hex_def list_all_iff)
  ultimately show ?thesis by (simp add: shell_word_def)
qed

lemma verify_hint_words:
  assumes "shell_word file" "shell_word sig" "shell_word key"
  shows "shell_words (verify_hint file sig key) =
    Some [''cry'', ''verify'', ''-f'', file, ''-s'', sig, ''-k'', key]"
proof -
  have "list_all (\<lambda>c. shell_char c \<or> c = CHR '' '') (verify_hint file sig key)"
    using assms by (auto simp: verify_hint_def shell_word_def list_all_iff) (simp_all add: shell_char_def)
  moreover have "cut_words [] (verify_hint file sig key) =
      ''cry'' # ''verify'' # ''-f'' # cut_words [] (file @ CHR '' '' # ''-s '' @ sig @ CHR '' '' # ''-k '' @ key)"
    by (simp add: verify_hint_def)
  ultimately show ?thesis
    by (simp add: shell_words_def cut_words_word assms)
qed

lemma derive_hint_words:
  assumes "shell_word ns"
  shows "shell_words (derive_hint ns) = Some [''cry'', ''derive'', ''-n'', ns, ''--openssh'']"
proof -
  have "list_all (\<lambda>c. shell_char c \<or> c = CHR '' '') (derive_hint ns)"
    using assms by (auto simp: derive_hint_def shell_word_def list_all_iff) (simp_all add: shell_char_def)
  moreover have "cut_words [] (derive_hint ns) = ''cry'' # ''derive'' # ''-n'' # cut_words [] (ns @ CHR '' '' # ''--openssh'')"
    by (simp add: derive_hint_def)
  ultimately show ?thesis by (simp add: shell_words_def cut_words_word assms)
qed

end
