(* ===== verification/Cry_Clap.thy ===== *)
theory Cry_Clap
  imports Cry_Prelude
begin

text \<open>
  The interface to the clap crate: how arguments are declared, and what its documentation promises
  of matching words against declarations, for the words this development speaks about: options
  followed by their value as a word of its own, switches, positional words and the words behind
  \<open>--\<close>. A matcher is a parameter of the model; one that keeps the promise is at the end.
\<close>

section \<open>Declarations and values\<close>

text \<open>
  \<open>Choice\<close> lists the names of each variant, its own name first. A number is below its limit.
\<close>

datatype value_kind = Path | Text | Num nat | Choice "string list list"

datatype arg_value =
    PathV string
  | TextV string
  | NumV nat
  | ChoiceV string
  | OnV
  | WordsV "string list"

datatype arg_form = Takes value_kind | Switch | Positional value_kind | Last

record arg_spec =
  arg_id :: string
  short :: "char option"
  long :: "string option"
  form :: arg_form
  required :: bool
  default :: "arg_value option"

text \<open>What was matched, by the name of the field; defaults included.\<close>

type_synonym matches = "string \<Rightarrow> arg_value option"

type_synonym matcher = "arg_spec list \<Rightarrow> string list \<Rightarrow> matches option"

definition needs :: "string \<Rightarrow> char option \<Rightarrow> string \<Rightarrow> value_kind \<Rightarrow> arg_spec" where
  "needs i s l k = \<lparr>arg_id = i, short = s, long = Some l, form = Takes k, required = True, default = None\<rparr>"

definition may :: "string \<Rightarrow> char option \<Rightarrow> string \<Rightarrow> value_kind \<Rightarrow> arg_value option \<Rightarrow> arg_spec" where
  "may i s l k d = \<lparr>arg_id = i, short = s, long = Some l, form = Takes k, required = False, default = d\<rparr>"

definition switch :: "string \<Rightarrow> string \<Rightarrow> arg_spec" where
  "switch i l = \<lparr>arg_id = i, short = None, long = Some l, form = Switch, required = False, default = None\<rparr>"

lemmas spec_defs = needs_def may_def switch_def

section \<open>What clap promises\<close>

text \<open>
  The value parsers: a path is not empty, a number is written in decimal, a choice is one of its
  names. clap also reads other spellings of numbers, of which nothing is said here.
\<close>

definition decimal :: "string \<Rightarrow> nat option" where
  "decimal t =
    (if t \<noteq> [] \<and> list_all (\<lambda>c. 48 \<le> (of_char c :: nat) \<and> (of_char c :: nat) \<le> 57) t
     then Some (foldl (\<lambda>n c. 10 * n + (of_char c - 48)) 0 t) else None)"

fun value_of :: "value_kind \<Rightarrow> string \<Rightarrow> arg_value option" where
  "value_of Path t = (if t = [] then None else Some (PathV t))"
| "value_of Text t = Some (TextV t)"
| "value_of (Num bound) t =
     (case decimal t of Some n \<Rightarrow> if n < bound then Some (NumV n) else None | None \<Rightarrow> None)"
| "value_of (Choice nss) t =
     (case find (\<lambda>ns. t \<in> set ns) nss of Some ns \<Rightarrow> Some (ChoiceV (hd ns)) | None \<Rightarrow> None)"

definition dashed :: "string \<Rightarrow> bool" where
  "dashed t = (t \<noteq> [] \<and> hd t = CHR ''-'')"

text \<open>The word \<open>w\<close> is the long or the short name of an option.\<close>

definition named :: "string \<Rightarrow> arg_spec \<Rightarrow> bool" where
  "named w a \<longleftrightarrow>
     (case long a of Some l \<Rightarrow> w = ''--'' @ l | None \<Rightarrow> False) \<or>
     (case short a of Some c \<Rightarrow> w = [CHR ''-'', c] | None \<Rightarrow> False)"

text \<open>
  \<open>given specs ws m\<close>: the words \<open>ws\<close> give the arguments \<open>m\<close>, each at most once. An option
  is \<open>--long value\<close> or \<open>-s value\<close>, and a value does not start with a dash.
\<close>

inductive given :: "arg_spec list \<Rightarrow> string list \<Rightarrow> matches \<Rightarrow> bool" for specs where
  nothing: "given specs [] Map.empty"
| option: "a \<in> set specs \<Longrightarrow> named w a \<Longrightarrow> form a = Takes k \<Longrightarrow> value_of k t = Some v \<Longrightarrow>
    \<not> dashed t \<Longrightarrow> given specs ws m \<Longrightarrow> m (arg_id a) = None \<Longrightarrow>
    given specs (w # t # ws) (m(arg_id a \<mapsto> v))"
| switched: "a \<in> set specs \<Longrightarrow> named w a \<Longrightarrow> form a = Switch \<Longrightarrow>
    given specs ws m \<Longrightarrow> m (arg_id a) = None \<Longrightarrow> given specs (w # ws) (m(arg_id a \<mapsto> OnV))"
| by_place: "a \<in> set specs \<Longrightarrow> form a = Positional k \<Longrightarrow> value_of k t = Some v \<Longrightarrow> \<not> dashed t \<Longrightarrow>
    given specs ws m \<Longrightarrow> m (arg_id a) = None \<Longrightarrow> given specs (t # ws) (m(arg_id a \<mapsto> v))"
| the_rest: "a \<in> set specs \<Longrightarrow> form a = Last \<Longrightarrow> ws \<noteq> [] \<Longrightarrow> given specs (''--'' # ws) [arg_id a \<mapsto> WordsV ws]"

text \<open>
  What clap asserts of declarations when it is built with debug assertions: no two arguments of a
  command share an id, a long or a short option, its own \<open>--help\<close> and \<open>-h\<close> included.
\<close>

definition positional :: "arg_spec \<Rightarrow> bool" where
  "positional a = (case form a of Positional k \<Rightarrow> True | _ \<Rightarrow> False)"

definition well_declared :: "arg_spec list \<Rightarrow> bool" where
  "well_declared specs \<longleftrightarrow>
     distinct (map arg_id specs) \<and> distinct (''help'' # List.map_filter long specs) \<and>
     distinct (CHR ''h'' # List.map_filter short specs) \<and>
     [] \<notin> set (List.map_filter long specs) \<and> CHR ''-'' \<notin> set (List.map_filter short specs) \<and>
     length (filter positional specs) \<le> 1 \<and> length (filter (\<lambda>a. form a = Last) specs) \<le> 1 \<and>
     list_all (\<lambda>a. positional a \<or> form a = Last \<longrightarrow> long a = None \<and> short a = None) specs"

definition with_defaults :: "arg_spec list \<Rightarrow> matches \<Rightarrow> matches" where
  "with_defaults specs m i =
    (case m i of
       Some v \<Rightarrow> Some v
     | None \<Rightarrow> (case find (\<lambda>a. arg_id a = i) specs of None \<Rightarrow> None | Some a \<Rightarrow> default a))"

definition has_required :: "arg_spec list \<Rightarrow> matches \<Rightarrow> bool" where
  "has_required specs m \<longleftrightarrow> list_all (\<lambda>a. required a \<longrightarrow> m (arg_id a) \<noteq> None) specs"

text \<open>
  Words that give all required arguments are matched, with the defaults filled in. Behind words that
  give arguments, an option whose value is none of its choices is an error, and so is a long
  option that is not declared (or it is \<open>--help\<close>, which ends the process as well).
\<close>

definition clap_lawful :: "matcher \<Rightarrow> bool" where
  "clap_lawful clap \<longleftrightarrow>
     (\<forall>specs ws m. well_declared specs \<longrightarrow> given specs ws m \<longrightarrow> has_required specs m \<longrightarrow>
        clap specs ws = Some (with_defaults specs m)) \<and>
     (\<forall>specs ws m a l nss t rest. well_declared specs \<longrightarrow> given specs ws m \<longrightarrow> ''--'' \<notin> set ws \<longrightarrow>
        a \<in> set specs \<longrightarrow> long a = Some l \<longrightarrow> form a = Takes (Choice nss) \<longrightarrow>
        t \<notin> set (concat nss) \<longrightarrow> \<not> dashed t \<longrightarrow> clap specs (ws @ (''--'' @ l) # t # rest) = None) \<and>
     (\<forall>specs ws m l rest. well_declared specs \<longrightarrow> given specs ws m \<longrightarrow> ''--'' \<notin> set ws \<longrightarrow>
        l \<noteq> [] \<longrightarrow> CHR ''='' \<notin> set l \<longrightarrow> l \<notin> set (List.map_filter long specs) \<longrightarrow>
        clap specs (ws @ (''--'' @ l) # rest) = None)"

section \<open>A matcher\<close>

text \<open>The words read from left to right; an executable reading of \<open>given\<close>.\<close>

definition put :: "arg_spec \<Rightarrow> arg_value \<Rightarrow> matches option \<Rightarrow> matches option" where
  "put a v r =
    (case r of None \<Rightarrow> None | Some m \<Rightarrow> if m (arg_id a) = None then Some (m(arg_id a \<mapsto> v)) else None)"

fun walk :: "arg_spec list \<Rightarrow> string list \<Rightarrow> matches option" where
  "walk specs [] = Some Map.empty"
| "walk specs (w # ws) =
    (if w = ''--'' then
       (case find (\<lambda>a. form a = Last) specs of
          None \<Rightarrow> None
        | Some a \<Rightarrow> if ws = [] then None else Some [arg_id a \<mapsto> WordsV ws])
     else
       (case find (named w) specs of
          Some a \<Rightarrow>
            (case form a of
               Switch \<Rightarrow> put a OnV (walk specs ws)
             | Takes k \<Rightarrow>
                 (case ws of
                    [] \<Rightarrow> None
                  | t # ws \<Rightarrow>
                      if dashed t then None else
                      (case value_of k t of None \<Rightarrow> None | Some v \<Rightarrow> put a v (walk specs ws)))
             | _ \<Rightarrow> None)
        | None \<Rightarrow>
            if dashed w then None else
            (case find positional specs of
               Some a \<Rightarrow>
                 (case form a of
                    Positional k \<Rightarrow> (case value_of k w of None \<Rightarrow> None | Some v \<Rightarrow> put a v (walk specs ws))
                  | _ \<Rightarrow> None)
             | None \<Rightarrow> None)))"

definition walk_clap :: matcher where
  "walk_clap specs ws =
    (case walk specs ws of
       None \<Rightarrow> None
     | Some m \<Rightarrow> if has_required specs m then Some (with_defaults specs m) else None)"

lemma mem_map_filter: "a \<in> set xs \<Longrightarrow> f a = Some y \<Longrightarrow> y \<in> set (List.map_filter f xs)"
  by (induction xs) (auto simp: map_filter_simps split: option.splits)

lemma map_filter_unique:
  assumes "distinct (List.map_filter f xs)" "a \<in> set xs" "b \<in> set xs" "f a = Some y" "f b = Some y"
  shows "a = b"
  using assms
proof (induction xs)
  case (Cons x xs)
  then show ?case
    using mem_map_filter [of _ xs f y] by (cases "f x") (auto simp: map_filter_simps)
qed simp

lemma find_unique:
  assumes "a \<in> set xs" "P a" "\<And>b. b \<in> set xs \<Longrightarrow> P b \<Longrightarrow> b = a"
  shows "find P xs = Some a"
proof (cases "find P xs")
  case None
  with assms(1,2) show ?thesis by (auto simp: find_None_iff)
next
  case (Some b)
  then have "b \<in> set xs" "P b" by (auto simp: find_Some_iff)
  with assms(3) Some show ?thesis by simp
qed

lemma short_filter_unique:
  assumes "length (filter P xs) \<le> 1" "a \<in> set xs" "P a" "b \<in> set xs" "P b"
  shows "b = a"
proof -
  have "a \<in> set (filter P xs)" "b \<in> set (filter P xs)" using assms by simp_all
  with assms(1) show ?thesis by (cases "filter P xs") (simp_all add: le_Suc_eq)
qed

lemma named_long: "l \<noteq> [] \<Longrightarrow> named (''--'' @ l) a \<longleftrightarrow> long a = Some l"
  by (auto simp: named_def split: option.splits)

lemma named_short: "c \<noteq> CHR ''-'' \<Longrightarrow> named [CHR ''-'', c] a \<longleftrightarrow> short a = Some c"
  by (auto simp: named_def split: option.splits)

lemma find_named:
  assumes ok: "well_declared specs" and a: "a \<in> set specs" "named w a"
  shows "w \<noteq> ''--''" and "find (named w) specs = Some a"
proof -
  have distinct: "distinct (List.map_filter long specs)" "distinct (List.map_filter short specs)"
    using ok by (simp_all add: well_declared_def)
  from a(2) consider l where "long a = Some l" "w = ''--'' @ l" | c where "short a = Some c" "w = [CHR ''-'', c]"
    by (auto simp: named_def split: option.splits)
  then have "w \<noteq> ''--'' \<and> (\<forall>b. b \<in> set specs \<longrightarrow> named w b \<longrightarrow> b = a)"
  proof cases
    case (1 l)
    have l: "l \<noteq> []" using mem_map_filter [of a specs long l] a(1) 1(1) ok by (auto simp: well_declared_def)
    with 1 map_filter_unique [OF distinct(1) _ a(1) _ 1(1)] show ?thesis by (simp add: named_long [simplified])
  next
    case (2 c)
    have c: "c \<noteq> CHR ''-''"
      using mem_map_filter [of a specs short c] a(1) 2(1) ok by (auto simp: well_declared_def)
    with 2 map_filter_unique [OF distinct(2) _ a(1) _ 2(1)] show ?thesis by (simp add: named_short)
  qed
  note * = this
  show "w \<noteq> ''--''" by (rule conjunct1 [OF *])
  show "find (named w) specs = Some a"
    by (rule find_unique [where P = "named w", OF a]) (use * in blast)
qed

lemma find_by_place:
  assumes "well_declared specs" "a \<in> set specs" "positional a"
  shows "find positional specs = Some a"
proof -
  have "length (filter positional specs) \<le> 1" using assms(1) unfolding well_declared_def by blast
  note unique = short_filter_unique [OF this assms(2)]
  show ?thesis
  proof (rule find_unique [where P = positional, OF assms(2,3)])
    fix b
    assume "b \<in> set specs" "positional b"
    with assms(3) show "b = a" by (intro unique)
  qed
qed

lemma find_last:
  assumes "well_declared specs" "a \<in> set specs" "form a = Last"
  shows "find (\<lambda>a. form a = Last) specs = Some a"
proof -
  have "length (filter (\<lambda>a. form a = Last) specs) \<le> 1" using assms(1) unfolding well_declared_def by blast
  note unique = short_filter_unique [OF this assms(2)]
  show ?thesis
  proof (rule find_unique [where P = "\<lambda>a. form a = Last", OF assms(2,3)])
    fix b
    assume "b \<in> set specs" "form b = Last"
    with assms(3) show "b = a" by (intro unique)
  qed
qed

lemma named_dashed: "named w a \<Longrightarrow> dashed w"
  by (auto simp: named_def dashed_def split: option.splits)

lemma find_no_name: "\<not> dashed w \<Longrightarrow> find (named w) specs = None"
  using named_dashed by (auto simp: find_None_iff)

lemma put_Some: "put a v (Some m) = Some m' \<longleftrightarrow> m (arg_id a) = None \<and> m' = m(arg_id a \<mapsto> v)"
  by (auto simp: put_def)

text \<open>The matcher reads all the words that give arguments, and only those.\<close>

lemma walk_given:
  assumes ok: "well_declared specs" and "given specs ws m"
  shows "walk specs ws = Some m"
  using assms(2)
proof (induction rule: given.induct)
  case (option a w k t v ws m)
  then show ?case using find_named [OF ok option(1,2)] by (simp add: put_def fun_upd_def)
next
  case (switched a w ws m)
  then show ?case using find_named [OF ok switched(1,2)] by (simp add: put_def fun_upd_def)
next
  case (by_place a k t v ws m)
  then have "positional a" by (simp add: positional_def)
  from find_by_place [OF ok by_place(1) this] by_place find_no_name [of t specs] show ?case
    by (auto simp: put_def dashed_def fun_upd_def)
next
  case (the_rest a ws)
  then show ?case using find_last [OF ok the_rest(1,2)] by (simp add: fun_upd_def)
qed simp

lemma given_walk: "walk specs ws = Some m \<Longrightarrow> given specs ws m"
proof (induction specs ws arbitrary: m rule: walk.induct)
  case (1 specs)
  then show ?case using given.nothing by auto
next
  case (2 specs w ws)
  show ?case
  proof (cases "w = ''--''")
    case True
    with "2.prems" show ?thesis
      by (auto simp: find_Some_iff split: option.splits if_splits intro!: given.the_rest)
  next
    case dashes: False
    show ?thesis
    proof (cases "find (named w) specs")
      case (Some a)
      then have a: "a \<in> set specs" "named w a" by (auto simp: find_Some_iff)
      show ?thesis
      proof (cases "form a")
        case (Takes k)
        from "2.prems" dashes Some Takes obtain t ws' v m0 where *: "ws = t # ws'" "\<not> dashed t"
          "value_of k t = Some v" "walk specs ws' = Some m0" "m0 (arg_id a) = None" "m = m0(arg_id a \<mapsto> v)"
          by (auto simp: put_def split: list.splits if_splits option.splits)
        have IH: "given specs ws' m0" by (rule "2.IH"(2) [OF dashes Some Takes *(1,2,3,4)])
        show ?thesis unfolding *(1,6) by (rule given.option [OF a Takes *(3,2) IH *(5)])
      next
        case Switch
        from "2.prems" dashes Some Switch obtain m0 where *: "walk specs ws = Some m0"
          "m0 (arg_id a) = None" "m = m0(arg_id a \<mapsto> OnV)"
          by (auto simp: put_def split: if_splits option.splits)
        show ?thesis
          unfolding *(3) by (rule given.switched [OF a Switch "2.IH"(3) [OF dashes Some Switch *(1)] *(2)])
      qed (use "2.prems" dashes Some in auto)
    next
      case None
      with "2.prems" dashes obtain a where a: "find positional specs = Some a" and w: "\<not> dashed w"
        by (auto split: if_splits option.splits)
      then have mem: "a \<in> set specs" by (auto simp: find_Some_iff)
      show ?thesis
      proof (cases "form a")
        case (Positional k)
        with "2.prems" dashes None a w obtain v m0 where *: "value_of k w = Some v" "walk specs ws = Some m0"
          "m0 (arg_id a) = None" "m = m0(arg_id a \<mapsto> v)"
          by (auto simp: put_def split: if_splits option.splits)
        show ?thesis
          unfolding *(4) by (rule given.by_place [OF mem Positional *(1) w "2.IH"(1) [OF dashes None w a Positional *(1,2)] *(3)])
      qed (use "2.prems" dashes None a w in auto)
    qed
  qed
qed


lemma given_iff_walk: "well_declared specs \<Longrightarrow> given specs ws m \<longleftrightarrow> walk specs ws = Some m"
  using walk_given given_walk by blast

lemma walk_bad_choice:
  assumes "well_declared specs" "a \<in> set specs" "long a = Some l" "form a = Takes (Choice nss)"
    and "t \<notin> set (concat nss)" "\<not> dashed t"
  shows "walk specs ((''--'' @ l) # t # ws) = None"
proof -
  have n: "named (''--'' @ l) a" using assms(3) by (simp add: named_def)
  have "find (\<lambda>ns. t \<in> set ns) nss = None" using assms(5) by (auto simp: find_None_iff)
  with find_named [OF assms(1,2) n] assms(4,6) show ?thesis by simp
qed

lemma walk_unknown:
  assumes "l \<noteq> []" "l \<notin> set (List.map_filter long specs)"
  shows "walk specs ((''--'' @ l) # ws) = None"
proof -
  have "\<not> named (''--'' @ l) a" if "a \<in> set specs" for a
    using mem_map_filter [OF that, of long l] assms by (auto simp: named_def split: option.splits)
  then have "find (named (''--'' @ l)) specs = None" by (simp add: find_None_iff)
  moreover have "dashed (''--'' @ l)" by (simp add: dashed_def)
  ultimately show ?thesis using assms(1) by simp
qed

lemma walk_behind:
  assumes ok: "well_declared specs" and "given specs ws m" and "''--'' \<notin> set ws" and "walk specs bad = None"
  shows "walk specs (ws @ bad) = None"
  using assms(2-4)
proof (induction rule: given.induct)
  case (option a w k t v ws m)
  then show ?case using find_named [OF ok option(1,2)] by (simp add: put_def)
next
  case (switched a w ws m)
  then show ?case using find_named [OF ok switched(1,2)] by (simp add: put_def)
next
  case (by_place a k t v ws m)
  then have "positional a" by (simp add: positional_def)
  from find_by_place [OF ok by_place(1) this] by_place find_no_name [of t specs] show ?case
    by (auto simp: put_def)
qed simp_all

lemma walk_clap_lawful: "clap_lawful walk_clap"
  unfolding clap_lawful_def
proof (intro conjI allI impI)
  fix specs ws m
  assume "well_declared specs" "given specs ws m" "has_required specs m"
  then show "walk_clap specs ws = Some (with_defaults specs m)"
    by (simp only: walk_clap_def walk_given option.case if_True)
next
  fix specs ws m a l nss t rest
  assume ok: "well_declared specs" "given specs ws m" "''--'' \<notin> set ws"
    and bad: "a \<in> set specs" "long a = Some l" "form a = Takes (Choice nss)" "t \<notin> set (concat nss)" "\<not> dashed t"
  from walk_behind [OF ok walk_bad_choice [OF ok(1) bad]]
  show "walk_clap specs (ws @ (''--'' @ l) # t # rest) = None" by (simp only: walk_clap_def option.case)
next
  fix specs ws m l rest
  assume ok: "well_declared specs" "given specs ws m" "''--'' \<notin> set ws"
    and bad: "l \<noteq> []" "l \<notin> set (List.map_filter long specs)"
  from walk_behind [OF ok walk_unknown [OF bad]]
  show "walk_clap specs (ws @ (''--'' @ l) # rest) = None" by (simp only: walk_clap_def option.case)
qed

text \<open>What this matcher accepts, every lawful one matches in the same way.\<close>

lemma clap_matches:
  assumes "clap_lawful clap" "well_declared specs" "walk_clap specs ws = Some m"
  shows "clap specs ws = Some m"
proof -
  from assms(3) obtain m0 where "walk specs ws = Some m0" "has_required specs m0" "m = with_defaults specs m0"
    by (auto simp: walk_clap_def split: option.splits if_splits)
  moreover from this(1) have "given specs ws m0" by (rule given_walk)
  ultimately show ?thesis using conjunct1 [OF assms(1) [unfolded clap_lawful_def]] assms(2) by blast
qed

lemma clap_refuses_choice:
  assumes "clap_lawful clap" "well_declared specs" "walk specs ws \<noteq> None" "''--'' \<notin> set ws"
    and "a \<in> set specs" "long a = Some l" "form a = Takes (Choice nss)" "t \<notin> set (concat nss)" "\<not> dashed t"
  shows "clap specs (ws @ (''--'' @ l) # t # rest) = None"
proof -
  from assms(3) obtain m where "given specs ws m" using given_walk by blast
  with conjunct1 [OF conjunct2 [OF assms(1) [unfolded clap_lawful_def]]] assms(2,4-) show ?thesis by blast
qed

lemma clap_refuses_unknown:
  assumes "clap_lawful clap" "well_declared specs" "walk specs ws \<noteq> None" "''--'' \<notin> set ws"
    and "l \<noteq> []" "CHR ''='' \<notin> set l" "l \<notin> set (List.map_filter long specs)"
  shows "clap specs (ws @ (''--'' @ l) # rest) = None"
proof -
  from assms(3) obtain m where "given specs ws m" using given_walk by blast
  with conjunct2 [OF conjunct2 [OF assms(1) [unfolded clap_lawful_def]]] assms(2,4-) show ?thesis by blast
qed

section \<open>Saying a command\<close>

text \<open>
  Words for given arguments, in the order of the table: every option by its long name or, where it
  has one and \<open>sh\<close> asks for it, its short one. The values that can be said are those that read back and do not start with a dash.
\<close>

fun text_of_value :: "arg_value \<Rightarrow> string" where
  "text_of_value (PathV p) = p"
| "text_of_value (TextV t) = t"
| "text_of_value (NumV n) = show_nat n"
| "text_of_value (ChoiceV c) = c"
| "text_of_value OnV = []"
| "text_of_value (WordsV ws) = []"

fun sayable :: "arg_form \<Rightarrow> arg_value \<Rightarrow> bool" where
  "sayable (Takes k) v = (value_of k (text_of_value v) = Some v \<and> \<not> dashed (text_of_value v))"
| "sayable Switch v = (v = OnV)"
| "sayable (Positional k) v = (value_of k (text_of_value v) = Some v \<and> \<not> dashed (text_of_value v))"
| "sayable Last v = (case v of WordsV ws \<Rightarrow> ws \<noteq> [] | _ \<Rightarrow> False)"

definition option_word :: "bool \<Rightarrow> arg_spec \<Rightarrow> string" where
  "option_word sh a =
    (case short a of
       Some c \<Rightarrow> if sh then [CHR ''-'', c] else ''--'' @ the (long a)
     | None \<Rightarrow> ''--'' @ the (long a))"

lemma option_word_named: "long a = Some l \<Longrightarrow> named (option_word sh a) a"
  by (auto simp: option_word_def named_def split: option.splits)

definition say_arg :: "bool \<Rightarrow> arg_spec \<Rightarrow> arg_value option \<Rightarrow> string list" where
  "say_arg sh a r =
    (case r of
       None \<Rightarrow> []
     | Some v \<Rightarrow>
         (case form a of
            Takes k \<Rightarrow> [option_word sh a, text_of_value v]
          | Switch \<Rightarrow> [option_word sh a]
          | Positional k \<Rightarrow> [text_of_value v]
          | Last \<Rightarrow> ''--'' # (case v of WordsV ws \<Rightarrow> ws | _ \<Rightarrow> [])))"

definition say_args :: "bool \<Rightarrow> arg_spec list \<Rightarrow> matches \<Rightarrow> string list" where
  "say_args sh specs m = concat (map (\<lambda>a. say_arg sh a (m (arg_id a))) specs)"

text \<open>What is behind \<open>--\<close> can only be the end.\<close>

definition last_at_end :: "arg_spec list \<Rightarrow> bool" where
  "last_at_end specs \<longleftrightarrow> list_all (\<lambda>a. form a \<noteq> Last) (butlast specs)"

lemma say_given:
  assumes "set as \<subseteq> set specs" and "distinct (map arg_id as)" and "last_at_end as"
    and "\<And>a v. a \<in> set as \<Longrightarrow> m (arg_id a) = Some v \<Longrightarrow> sayable (form a) v"
    and "\<And>a. a \<in> set as \<Longrightarrow> (\<exists>k. form a = Takes k) \<or> form a = Switch \<Longrightarrow> \<exists>l. long a = Some l"
  shows "given specs (say_args sh as m) (m |` (arg_id ` set as))"
  using assms
proof (induction as)
  case Nil
  then show ?case using given.nothing by (simp add: say_args_def)
next
  case (Cons a as)
  have rest: "given specs (say_args sh as m) (m |` (arg_id ` set as))"
    using Cons.prems by (intro Cons.IH) (auto simp: last_at_end_def split: if_splits)
  have fresh: "(m |` (arg_id ` set as)) (arg_id a) = None"
    using Cons.prems(2) by (simp add: restrict_map_def)
  show ?case
  proof (cases "m (arg_id a)")
    case None
    then have "m |` (arg_id ` set (a # as)) = m |` (arg_id ` set as)"
      by (auto simp: restrict_map_def fun_eq_iff)
    with rest None show ?thesis by (simp add: say_args_def say_arg_def)
  next
    case (Some v)
    have upd: "m |` (arg_id ` set (a # as)) = (m |` (arg_id ` set as))(arg_id a \<mapsto> v)"
      using Some by (auto simp: restrict_map_def fun_eq_iff)
    have mem: "a \<in> set specs" and ok: "sayable (form a) v" using Cons.prems(1,4) Some by auto
    have words: "say_args sh (a # as) m = say_arg sh a (Some v) @ say_args sh as m"
      by (simp add: say_args_def Some)
    show ?thesis
    proof (cases "form a")
      case (Takes k)
      with Cons.prems(5) [of a] obtain l where l: "long a = Some l" by auto
      have "named (option_word sh a) a" by (rule option_word_named [OF l])
      from given.option [OF mem this Takes _ _ rest fresh, of "text_of_value v" v] ok Takes l show ?thesis
        unfolding upd words by (simp add: say_arg_def fun_upd_def)
    next
      case Switch
      with Cons.prems(5) [of a] obtain l where l: "long a = Some l" by auto
      have "named (option_word sh a) a" by (rule option_word_named [OF l])
      from given.switched [OF mem this Switch rest fresh] ok Switch l show ?thesis
        unfolding upd words by (simp add: say_arg_def fun_upd_def)
    next
      case (Positional k)
      from given.by_place [OF mem Positional _ _ rest fresh, of "text_of_value v" v] ok Positional show ?thesis
        unfolding upd words by (simp add: say_arg_def fun_upd_def)
    next
      case Last
      with Cons.prems(3) have "as = []" by (cases as) (auto simp: last_at_end_def)
      moreover obtain ws where "v = WordsV ws" "ws \<noteq> []" using ok Last by (cases v) auto
      ultimately show ?thesis
        using given.the_rest [OF mem Last, of ws] Last unfolding upd words
        by (simp add: say_arg_def say_args_def fun_upd_def)
    qed
  qed
qed

text \<open>Words said for arguments of a table are matched as just these arguments, and the defaults.\<close>

lemma clap_said:
  assumes "clap_lawful clap" "well_declared specs" "last_at_end specs" "dom m \<subseteq> arg_id ` set specs"
    and "list_all (\<lambda>a. case m (arg_id a) of None \<Rightarrow> \<not> required a | Some v \<Rightarrow> sayable (form a) v) specs"
    and "list_all (\<lambda>a. (\<exists>k. form a = Takes k) \<or> form a = Switch \<longrightarrow> long a \<noteq> None) specs"
  shows "clap specs (say_args sh specs m) = Some (with_defaults specs m)"
proof -
  have all: "m |` (arg_id ` set specs) = m"
  proof
    fix i
    show "(m |` (arg_id ` set specs)) i = m i"
      using assms(4) by (cases "m i") (auto simp: restrict_map_def dom_def)
  qed
  have "given specs (say_args sh specs m) (m |` (arg_id ` set specs))"
    using assms(2,5,6) by (intro say_given assms(3)) (fastforce simp: well_declared_def list_all_iff)+
  then have "given specs (say_args sh specs m) m" by (simp only: all)
  moreover have "has_required specs m"
    using assms(5) by (auto simp: has_required_def list_all_iff split: option.splits)
  ultimately show ?thesis using conjunct1 [OF assms(1) [unfolded clap_lawful_def]] assms(2) by blast
qed

text \<open>Numbers read back.\<close>

lemma show_nat_fuel_digits:
  assumes "n < 10 ^ Suc k"
  shows "list_all (\<lambda>c. 48 \<le> (of_char c :: nat) \<and> (of_char c :: nat) \<le> 57) (show_nat_fuel (Suc k) n)"
    and "show_nat_fuel (Suc k) n \<noteq> []"
    and "foldl (\<lambda>n c. 10 * n + (of_char c - 48)) 0 (show_nat_fuel (Suc k) n) = n"
proof -
  have digit: "d < 10 \<Longrightarrow> of_char (char_of (48 + d) :: char) = 48 + d" for d :: nat by simp
  note step = show_nat_fuel.simps(2)
  have "list_all (\<lambda>c. 48 \<le> (of_char c :: nat) \<and> (of_char c :: nat) \<le> 57) (show_nat_fuel (Suc k) n) \<and>
      show_nat_fuel (Suc k) n \<noteq> [] \<and>
      foldl (\<lambda>n c. 10 * n + (of_char c - 48)) 0 (show_nat_fuel (Suc k) n) = n"
    using assms
  proof (induction k arbitrary: n)
    case 0
    then show ?case by (simp add: digit)
  next
    case (Suc k)
    then have "n div 10 < 10 ^ Suc k" by (simp add: div_less_iff_less_mult mult.commute)
    moreover have "n mod 10 \<le> 9" using mod_less_divisor [of 10 n] by linarith
    ultimately show ?case using Suc.IH [of "n div 10"]
      by (simp add: step [of "Suc k" n] digit del: show_nat_fuel.simps)
  qed
  then show "list_all (\<lambda>c. 48 \<le> (of_char c :: nat) \<and> (of_char c :: nat) \<le> 57) (show_nat_fuel (Suc k) n)"
    and "show_nat_fuel (Suc k) n \<noteq> []"
    and "foldl (\<lambda>n c. 10 * n + (of_char c - 48)) 0 (show_nat_fuel (Suc k) n) = n" by blast+
qed

lemma decimal_show_nat: "decimal (show_nat n) = Some n"
proof -
  have "n < 10 ^ Suc n"
  proof (induction n)
    case (Suc n)
    then show ?case by (simp only: power_Suc)
  qed simp
  note digits = show_nat_fuel_digits [OF this]
  then show ?thesis unfolding decimal_def show_nat_def by (simp only: simp_thms if_True)
qed

lemma show_nat_not_dashed: "\<not> dashed (show_nat n)"
proof -
  obtain k where "decimal (show_nat n) = Some k" using decimal_show_nat by blast
  then show ?thesis by (cases "show_nat n") (auto simp: decimal_def dashed_def split: if_splits)
qed

end
