(* ===== verification/Cry_Syntax.thy ===== *)
theory Cry_Syntax
  imports Cry_Terminal Cry_Clap
begin

text \<open>
  The command-line syntax: the argument declarations (the \<open>#[arg(\<dots>)]\<close> and
  \<open>#[command(\<dots>)]\<close> attributes of \<open>main.rs\<close>, \<open>crydna.rs\<close>, \<open>keygen.rs\<close>,
  \<open>ssh.rs\<close> and \<open>bench.rs\<close>) as tables, the argument structs filled from what was
  matched, and the choice of the subcommand. The matching is clap's and a parameter.
\<close>

section \<open>The tables\<close>

definition algorithm_names :: "string list list" where
  "algorithm_names = [[''aes256gcm'', ''aes''], [''chacha20poly1305'', ''chacha'']]"

definition key_algorithm_names :: "string list list" where
  "key_algorithm_names = [[''ed25519''], [''rsa''], [''aes256-gcm'']]"

definition encrypt_specs :: "arg_spec list" where
  "encrypt_specs =
    [needs ''plain'' (Some (CHR ''p'')) ''plain'' Path,
     needs ''cipher'' (Some (CHR ''c'')) ''cipher'' Path,
     may ''algorithm'' (Some (CHR ''a'')) ''algorithm'' (Choice algorithm_names) (Some (ChoiceV ''aes256gcm'')),
     switch ''force'' ''force'',
     may ''pass_file'' None ''pass-file'' Path None]"

definition decrypt_specs :: "arg_spec list" where
  "decrypt_specs =
    [needs ''cipher'' (Some (CHR ''c'')) ''cipher'' Path,
     needs ''plain'' (Some (CHR ''p'')) ''plain'' Path,
     switch ''force'' ''force'',
     may ''pass_file'' None ''pass-file'' Path None]"

definition keygen_specs :: "arg_spec list" where
  "keygen_specs =
    [may ''algo'' None ''algo'' (Choice key_algorithm_names) (Some (ChoiceV ''ed25519'')),
     may ''bits'' None ''bits'' (Num (2 ^ 64)) (Some (NumV 3072)),
     may ''output'' (Some (CHR ''o'')) ''output'' Path (Some (PathV ''k'')),
     may ''sub_id'' None ''sub-id'' Text None,
     switch ''force'' ''force'',
     switch ''openssh'' ''openssh'',
     may ''comment'' None ''comment'' Text (Some (TextV ''CryDNA''))]"

definition derive_specs :: "arg_spec list" where
  "derive_specs =
    [may ''algo'' None ''algo'' (Choice key_algorithm_names) (Some (ChoiceV ''ed25519'')),
     may ''bits'' None ''bits'' (Num (2 ^ 64)) (Some (NumV 3072)),
     may ''passphrase'' None ''passphrase'' Text None,
     may ''namespace'' (Some (CHR ''n'')) ''namespace'' Text (Some (TextV ''default'')),
     may ''key_version'' None ''key-version'' (Num (2 ^ 32)) (Some (NumV 0)),
     may ''output'' (Some (CHR ''o'')) ''output'' Path (Some (PathV ''k'')),
     may ''sub_id'' None ''sub-id'' Text None,
     switch ''force'' ''force'',
     switch ''openssh'' ''openssh'',
     may ''comment'' None ''comment'' Text (Some (TextV ''CryDNA''))]"

text \<open>\<open>IdentityParams\<close>, flattened into \<open>SignArgs\<close>.\<close>

definition identity_params_specs :: "arg_spec list" where
  "identity_params_specs =
    [may ''namespace'' (Some (CHR ''n'')) ''namespace'' Text (Some (TextV ''default'')),
     may ''key_version'' None ''key-version'' (Num (2 ^ 32)) (Some (NumV 0)),
     may ''sub_id'' None ''sub-id'' Text None,
     may ''pass_file'' None ''pass-file'' Path None]"

definition sign_specs :: "arg_spec list" where
  "sign_specs = needs ''file'' (Some (CHR ''f'')) ''file'' Path # identity_params_specs"

definition verify_specs :: "arg_spec list" where
  "verify_specs =
    [needs ''file'' (Some (CHR ''f'')) ''file'' Path,
     needs ''signature'' (Some (CHR ''s'')) ''signature'' Text,
     needs ''public_key'' (Some (CHR ''k'')) ''public-key'' Text]"

definition bench_specs :: "arg_spec list" where
  "bench_specs =
    [may ''size_mib'' None ''size-mib'' (Num (2 ^ 64)) (Some (NumV 256)),
     may ''samples'' None ''samples'' (Num (2 ^ 32)) (Some (NumV 7)),
     may ''warmup'' None ''warmup'' (Num (2 ^ 32)) (Some (NumV 2)),
     may ''kdf_runs'' None ''kdf-runs'' (Num (2 ^ 32)) (Some (NumV 5))]"

definition ssh_specs :: "arg_spec list" where
  "ssh_specs =
    [\<lparr>arg_id = ''target'', short = None, long = None, form = Positional Text, required = True, default = None\<rparr>,
     may ''passphrase'' None ''passphrase'' Text None,
     may ''namespace'' (Some (CHR ''n'')) ''namespace'' Text (Some (TextV ''default'')),
     may ''key_version'' None ''key-version'' (Num (2 ^ 32)) (Some (NumV 0)),
     may ''sub_id'' None ''sub-id'' Text None,
     may ''pass_file'' None ''pass-file'' Path None,
     may ''port'' (Some (CHR ''p'')) ''port'' (Num (2 ^ 16)) None,
     \<lparr>arg_id = ''ssh_args'', short = None, long = None, form = Last, required = False, default = None\<rparr>]"

text \<open>The subcommands with their names, the declared one first, then the aliases.\<close>

datatype subcommand =
  SubEncrypt | SubDecrypt | SubKeygen | SubDerive | SubSign | SubVerify | SubBench | SubSsh

definition subcommands :: "(string list \<times> subcommand) list" where
  "subcommands =
    [([''encrypt'', ''-en'', ''en''], SubEncrypt), ([''decrypt'', ''-de'', ''de''], SubDecrypt),
     ([''keygen''], SubKeygen), ([''derive''], SubDerive), ([''sign''], SubSign),
     ([''verify''], SubVerify), ([''bench''], SubBench), ([''ssh''], SubSsh)]"

fun specs_of :: "subcommand \<Rightarrow> arg_spec list" where
  "specs_of SubEncrypt = encrypt_specs"
| "specs_of SubDecrypt = decrypt_specs"
| "specs_of SubKeygen = keygen_specs"
| "specs_of SubDerive = derive_specs"
| "specs_of SubSign = sign_specs"
| "specs_of SubVerify = verify_specs"
| "specs_of SubBench = bench_specs"
| "specs_of SubSsh = ssh_specs"

lemmas spec_tables = encrypt_specs_def decrypt_specs_def keygen_specs_def derive_specs_def
  sign_specs_def identity_params_specs_def verify_specs_def bench_specs_def ssh_specs_def

section \<open>Filling the argument structs\<close>

definition path_at :: "matches \<Rightarrow> string \<Rightarrow> string option" where
  "path_at m i = (case m i of Some (PathV p) \<Rightarrow> Some p | _ \<Rightarrow> None)"

definition text_at :: "matches \<Rightarrow> string \<Rightarrow> string option" where
  "text_at m i = (case m i of Some (TextV t) \<Rightarrow> Some t | _ \<Rightarrow> None)"

definition num_at :: "matches \<Rightarrow> string \<Rightarrow> nat option" where
  "num_at m i = (case m i of Some (NumV n) \<Rightarrow> Some n | _ \<Rightarrow> None)"

definition is_on :: "matches \<Rightarrow> string \<Rightarrow> bool" where
  "is_on m i = (m i = Some OnV)"

definition words_at :: "matches \<Rightarrow> string \<Rightarrow> string list" where
  "words_at m i = (case m i of Some (WordsV ws) \<Rightarrow> ws | _ \<Rightarrow> [])"

definition algorithm_at :: "matches \<Rightarrow> string \<Rightarrow> algorithm option" where
  "algorithm_at m i =
    (if m i = Some (ChoiceV ''aes256gcm'') then Some Aes256Gcm
     else if m i = Some (ChoiceV ''chacha20poly1305'') then Some ChaCha20Poly1305 else None)"

definition key_algorithm_at :: "matches \<Rightarrow> string \<Rightarrow> key_algorithm option" where
  "key_algorithm_at m i =
    (if m i = Some (ChoiceV ''ed25519'') then Some Ed25519
     else if m i = Some (ChoiceV ''rsa'') then Some Rsa
     else if m i = Some (ChoiceV ''aes256-gcm'') then Some AesKey else None)"

lemmas at_defs = path_at_def text_at_def num_at_def is_on_def words_at_def algorithm_at_def key_algorithm_at_def

fun fill :: "subcommand \<Rightarrow> matches \<Rightarrow> command option" where
  "fill SubEncrypt m =
    (case (path_at m ''plain'', path_at m ''cipher'', algorithm_at m ''algorithm'') of
       (Some plain, Some cipher, Some algo) \<Rightarrow>
         Some (Encrypt \<lparr>ea_plain = plain, ea_cipher = cipher, ea_algorithm = algo,
           ea_force = is_on m ''force'', ea_pass_file = path_at m ''pass_file''\<rparr>)
     | _ \<Rightarrow> None)"
| "fill SubDecrypt m =
    (case (path_at m ''cipher'', path_at m ''plain'') of
       (Some cipher, Some plain) \<Rightarrow>
         Some (Decrypt \<lparr>dc_cipher = cipher, dc_plain = plain, dc_force = is_on m ''force'',
           dc_pass_file = path_at m ''pass_file''\<rparr>)
     | _ \<Rightarrow> None)"
| "fill SubKeygen m =
    (case (key_algorithm_at m ''algo'', num_at m ''bits'', path_at m ''output'', text_at m ''comment'') of
       (Some algo, Some bits, Some out, Some comment) \<Rightarrow>
         Some (Keygen \<lparr>kg_algo = algo, kg_bits = bits, kg_output = out, kg_sub_id = text_at m ''sub_id'',
           kg_force = is_on m ''force'', kg_openssh = is_on m ''openssh'', kg_comment = comment\<rparr>)
     | _ \<Rightarrow> None)"
| "fill SubDerive m =
    (case (key_algorithm_at m ''algo'', num_at m ''bits'', text_at m ''namespace'',
           num_at m ''key_version'', path_at m ''output'', text_at m ''comment'') of
       (Some algo, Some bits, Some ns, Some v, Some out, Some comment) \<Rightarrow>
         Some (Derive \<lparr>da_algo = algo, da_bits = bits, da_passphrase = text_at m ''passphrase'',
           da_namespace = ns, da_key_version = word_of_nat v, da_output = out, da_sub_id = text_at m ''sub_id'',
           da_force = is_on m ''force'', da_openssh = is_on m ''openssh'', da_comment = comment\<rparr>)
     | _ \<Rightarrow> None)"
| "fill SubSign m =
    (case (path_at m ''file'', text_at m ''namespace'', num_at m ''key_version'') of
       (Some file, Some ns, Some v) \<Rightarrow>
         Some (Sign \<lparr>sg_file = file, sg_params = \<lparr>ip_namespace = ns, ip_key_version = word_of_nat v,
           ip_sub_id = text_at m ''sub_id'', ip_pass_file = path_at m ''pass_file''\<rparr>\<rparr>)
     | _ \<Rightarrow> None)"
| "fill SubVerify m =
    (case (path_at m ''file'', text_at m ''signature'', text_at m ''public_key'') of
       (Some file, Some sig, Some key) \<Rightarrow>
         Some (Verify \<lparr>vf_file = file, vf_signature = sig, vf_public_key = key\<rparr>)
     | _ \<Rightarrow> None)"
| "fill SubBench m =
    (case (num_at m ''size_mib'', num_at m ''samples'', num_at m ''warmup'', num_at m ''kdf_runs'') of
       (Some mib, Some samps, Some warm, Some runs) \<Rightarrow>
         Some (Bench \<lparr>size_mib = mib, samples = word_of_nat samps, warmup = word_of_nat warm,
           kdf_runs = word_of_nat runs\<rparr>)
     | _ \<Rightarrow> None)"
| "fill SubSsh m =
    (case (text_at m ''target'', text_at m ''namespace'', num_at m ''key_version'') of
       (Some target, Some ns, Some v) \<Rightarrow>
         Some (Ssh \<lparr>sa_target = target, sa_passphrase = text_at m ''passphrase'', sa_namespace = ns,
           sa_key_version = word_of_nat v, sa_sub_id = text_at m ''sub_id'',
           sa_pass_file = path_at m ''pass_file'', sa_port = map_option word_of_nat (num_at m ''port''),
           sa_ssh_args = words_at m ''ssh_args''\<rparr>)
     | _ \<Rightarrow> None)"

text \<open>
  \<open>Cli::parse\<close>: a command, none at all, or no return, when clap reports an error or prints
  the help or the version and ends the process.
\<close>

datatype parsed = ByClap | Parsed "command option"

definition cli_parse :: "matcher \<Rightarrow> string list \<Rightarrow> parsed" where
  "cli_parse clap ws =
    (case ws of
       [] \<Rightarrow> Parsed None
     | w # ws \<Rightarrow>
         (case find (\<lambda>(nss, sub). w \<in> set nss) subcommands of
            None \<Rightarrow> ByClap
          | Some (nss, sub) \<Rightarrow>
              (case clap (specs_of sub) ws of
                 None \<Rightarrow> ByClap
               | Some m \<Rightarrow> (case fill sub m of None \<Rightarrow> ByClap | Some c \<Rightarrow> Parsed (Some c)))))"

end
