(* ===== verification/Cry_Usage.thy ===== *)
theory Cry_Usage
  imports Cry_Syntax
begin

text \<open>
  What can be said on the command line and what the program says of it: every command has words that
  parse to it, the command lines that \<open>sign\<close> and \<open>ssh\<close> print for the user, and those
  that the help text and the README give as examples.
\<close>

section \<open>The tables are fit for clap\<close>

lemma tables_declared: "well_declared (specs_of sub)"
  by (cases sub) (simp_all add: well_declared_def spec_tables spec_defs map_filter_simps positional_def)

lemma tables_end: "last_at_end (specs_of sub)"
  by (cases sub) (simp_all add: last_at_end_def spec_tables spec_defs)

lemma tables_long:
  "list_all (\<lambda>a. (\<exists>k. form a = Takes k) \<or> form a = Switch \<longrightarrow> long a \<noteq> None) (specs_of sub)"
  by (cases sub) (simp_all add: spec_tables spec_defs)

section \<open>Words for a command\<close>

text \<open>
  How a user writes a command, from the documented names and defaults: options that are off or have
  their default are left out, the others are written by their short names, where they have one and
  \<open>sh\<close> asks for it, or by their long ones. Nothing here refers to the tables.
\<close>

fun algorithm_word :: "algorithm \<Rightarrow> string" where
  "algorithm_word Aes256Gcm = ''aes256gcm''"
| "algorithm_word ChaCha20Poly1305 = ''chacha20poly1305''"

fun key_algorithm_word :: "key_algorithm \<Rightarrow> string" where
  "key_algorithm_word Ed25519 = ''ed25519''"
| "key_algorithm_word Rsa = ''rsa''"
| "key_algorithm_word AesKey = ''aes256-gcm''"

definition either :: "bool \<Rightarrow> string \<Rightarrow> string \<Rightarrow> string" where
  "either sh s l = (if sh then s else l)"

definition unless :: "bool \<Rightarrow> string list \<Rightarrow> string list" where
  "unless b ws = (if b then [] else ws)"

definition optional :: "string \<Rightarrow> string option \<Rightarrow> string list" where
  "optional l r = (case r of None \<Rightarrow> [] | Some t \<Rightarrow> [l, t])"

fun say :: "bool \<Rightarrow> command \<Rightarrow> string list" where
  "say sh (Encrypt a) = [''encrypt'', either sh ''-p'' ''--plain'', ea_plain a, either sh ''-c'' ''--cipher'', ea_cipher a] @
     unless (ea_algorithm a = Aes256Gcm) [either sh ''-a'' ''--algorithm'', algorithm_word (ea_algorithm a)] @
     unless (\<not> ea_force a) [''--force''] @ optional ''--pass-file'' (ea_pass_file a)"
| "say sh (Decrypt a) = [''decrypt'', either sh ''-c'' ''--cipher'', dc_cipher a, either sh ''-p'' ''--plain'', dc_plain a] @
     unless (\<not> dc_force a) [''--force''] @ optional ''--pass-file'' (dc_pass_file a)"
| "say sh (Keygen a) = ''keygen'' # unless (kg_algo a = Ed25519) [''--algo'', key_algorithm_word (kg_algo a)] @
     unless (kg_bits a = 3072) [''--bits'', show_nat (kg_bits a)] @
     unless (kg_output a = ''k'') [either sh ''-o'' ''--output'', kg_output a] @ optional ''--sub-id'' (kg_sub_id a) @
     unless (\<not> kg_force a) [''--force''] @ unless (\<not> kg_openssh a) [''--openssh''] @
     unless (kg_comment a = ''CryDNA'') [''--comment'', kg_comment a]"
| "say sh (Derive a) = ''derive'' # unless (da_algo a = Ed25519) [''--algo'', key_algorithm_word (da_algo a)] @
     unless (da_bits a = 3072) [''--bits'', show_nat (da_bits a)] @ optional ''--passphrase'' (da_passphrase a) @
     unless (da_namespace a = ''default'') [either sh ''-n'' ''--namespace'', da_namespace a] @
     unless (da_key_version a = 0) [''--key-version'', show_nat (unat (da_key_version a))] @
     unless (da_output a = ''k'') [either sh ''-o'' ''--output'', da_output a] @ optional ''--sub-id'' (da_sub_id a) @
     unless (\<not> da_force a) [''--force''] @ unless (\<not> da_openssh a) [''--openssh''] @
     unless (da_comment a = ''CryDNA'') [''--comment'', da_comment a]"
| "say sh (Sign a) = (let p = sg_params a in [''sign'', either sh ''-f'' ''--file'', sg_file a] @
     unless (ip_namespace p = ''default'') [either sh ''-n'' ''--namespace'', ip_namespace p] @
     unless (ip_key_version p = 0) [''--key-version'', show_nat (unat (ip_key_version p))] @
     optional ''--sub-id'' (ip_sub_id p) @ optional ''--pass-file'' (ip_pass_file p))"
| "say sh (Verify a) = [''verify'', either sh ''-f'' ''--file'', vf_file a, either sh ''-s'' ''--signature'', vf_signature a,
     either sh ''-k'' ''--public-key'', vf_public_key a]"
| "say sh (Bench a) = ''bench'' # unless (size_mib a = 256) [''--size-mib'', show_nat (size_mib a)] @
     unless (samples a = 7) [''--samples'', show_nat (unat (samples a))] @
     unless (warmup a = 2) [''--warmup'', show_nat (unat (warmup a))] @
     unless (kdf_runs a = 5) [''--kdf-runs'', show_nat (unat (kdf_runs a))]"
| "say sh (Ssh a) = [''ssh'', sa_target a] @ optional ''--passphrase'' (sa_passphrase a) @
     unless (sa_namespace a = ''default'') [either sh ''-n'' ''--namespace'', sa_namespace a] @
     unless (sa_key_version a = 0) [''--key-version'', show_nat (unat (sa_key_version a))] @
     optional ''--sub-id'' (sa_sub_id a) @ optional ''--pass-file'' (sa_pass_file a) @
     optional (either sh ''-p'' ''--port'') (map_option (show_nat \<circ> unat) (sa_port a)) @
     unless (sa_ssh_args a = []) (''--'' # sa_ssh_args a)"

text \<open>The same as matched arguments.\<close>

definition fields :: "(string \<times> arg_value option) list \<Rightarrow> matches" where
  "fields xs i = (case map_of xs i of Some v \<Rightarrow> v | None \<Rightarrow> None)"

definition flag :: "bool \<Rightarrow> arg_value option" where
  "flag b = (if b then Some OnV else None)"

definition but :: "'a \<Rightarrow> ('a \<Rightarrow> arg_value) \<Rightarrow> 'a \<Rightarrow> arg_value option" where
  "but d f v = (if v = d then None else Some (f v))"

fun to_matches :: "command \<Rightarrow> matches" where
  "to_matches (Encrypt a) = fields
     [(''plain'', Some (PathV (ea_plain a))), (''cipher'', Some (PathV (ea_cipher a))),
      (''algorithm'', but Aes256Gcm (ChoiceV \<circ> algorithm_word) (ea_algorithm a)),
      (''force'', flag (ea_force a)), (''pass_file'', map_option PathV (ea_pass_file a))]"
| "to_matches (Decrypt a) = fields
     [(''cipher'', Some (PathV (dc_cipher a))), (''plain'', Some (PathV (dc_plain a))),
      (''force'', flag (dc_force a)), (''pass_file'', map_option PathV (dc_pass_file a))]"
| "to_matches (Keygen a) = fields
     [(''algo'', but Ed25519 (ChoiceV \<circ> key_algorithm_word) (kg_algo a)), (''bits'', but 3072 NumV (kg_bits a)),
      (''output'', but ''k'' PathV (kg_output a)), (''sub_id'', map_option TextV (kg_sub_id a)),
      (''force'', flag (kg_force a)), (''openssh'', flag (kg_openssh a)),
      (''comment'', but ''CryDNA'' TextV (kg_comment a))]"
| "to_matches (Derive a) = fields
     [(''algo'', but Ed25519 (ChoiceV \<circ> key_algorithm_word) (da_algo a)), (''bits'', but 3072 NumV (da_bits a)),
      (''passphrase'', map_option TextV (da_passphrase a)), (''namespace'', but ''default'' TextV (da_namespace a)),
      (''key_version'', but 0 (NumV \<circ> unat) (da_key_version a)), (''output'', but ''k'' PathV (da_output a)),
      (''sub_id'', map_option TextV (da_sub_id a)), (''force'', flag (da_force a)),
      (''openssh'', flag (da_openssh a)), (''comment'', but ''CryDNA'' TextV (da_comment a))]"
| "to_matches (Sign a) = (let p = sg_params a in fields
     [(''file'', Some (PathV (sg_file a))), (''namespace'', but ''default'' TextV (ip_namespace p)),
      (''key_version'', but 0 (NumV \<circ> unat) (ip_key_version p)), (''sub_id'', map_option TextV (ip_sub_id p)),
      (''pass_file'', map_option PathV (ip_pass_file p))])"
| "to_matches (Verify a) = fields
     [(''file'', Some (PathV (vf_file a))), (''signature'', Some (TextV (vf_signature a))),
      (''public_key'', Some (TextV (vf_public_key a)))]"
| "to_matches (Bench a) = fields
     [(''size_mib'', but 256 NumV (size_mib a)), (''samples'', but 7 (NumV \<circ> unat) (samples a)),
      (''warmup'', but 2 (NumV \<circ> unat) (warmup a)), (''kdf_runs'', but 5 (NumV \<circ> unat) (kdf_runs a))]"
| "to_matches (Ssh a) = fields
     [(''target'', Some (TextV (sa_target a))), (''passphrase'', map_option TextV (sa_passphrase a)),
      (''namespace'', but ''default'' TextV (sa_namespace a)),
      (''key_version'', but 0 (NumV \<circ> unat) (sa_key_version a)), (''sub_id'', map_option TextV (sa_sub_id a)),
      (''pass_file'', map_option PathV (sa_pass_file a)), (''port'', map_option (NumV \<circ> unat) (sa_port a)),
      (''ssh_args'', if sa_ssh_args a = [] then None else Some (WordsV (sa_ssh_args a)))]"

fun sub_of :: "command \<Rightarrow> subcommand" where
  "sub_of (Encrypt a) = SubEncrypt"
| "sub_of (Decrypt a) = SubDecrypt"
| "sub_of (Keygen a) = SubKeygen"
| "sub_of (Derive a) = SubDerive"
| "sub_of (Sign a) = SubSign"
| "sub_of (Verify a) = SubVerify"
| "sub_of (Bench a) = SubBench"
| "sub_of (Ssh a) = SubSsh"

text \<open>What the words need: paths that are not empty, values that do not start with a dash, numbers
  in their range.\<close>

definition plain_path :: "string \<Rightarrow> bool" where
  "plain_path p \<longleftrightarrow> p \<noteq> [] \<and> \<not> dashed p"

definition plain_opt :: "(string \<Rightarrow> bool) \<Rightarrow> string option \<Rightarrow> bool" where
  "plain_opt ok r = (case r of None \<Rightarrow> True | Some t \<Rightarrow> ok t)"

fun plain_command :: "command \<Rightarrow> bool" where
  "plain_command (Encrypt a) \<longleftrightarrow>
     plain_path (ea_plain a) \<and> plain_path (ea_cipher a) \<and> plain_opt plain_path (ea_pass_file a)"
| "plain_command (Decrypt a) \<longleftrightarrow>
     plain_path (dc_plain a) \<and> plain_path (dc_cipher a) \<and> plain_opt plain_path (dc_pass_file a)"
| "plain_command (Keygen a) \<longleftrightarrow>
     kg_bits a < 2 ^ 64 \<and> plain_path (kg_output a) \<and> plain_opt (Not \<circ> dashed) (kg_sub_id a) \<and>
     \<not> dashed (kg_comment a)"
| "plain_command (Derive a) \<longleftrightarrow>
     da_bits a < 2 ^ 64 \<and> plain_path (da_output a) \<and> plain_opt (Not \<circ> dashed) (da_sub_id a) \<and>
     plain_opt (Not \<circ> dashed) (da_passphrase a) \<and> \<not> dashed (da_namespace a) \<and> \<not> dashed (da_comment a)"
| "plain_command (Sign a) \<longleftrightarrow>
     plain_path (sg_file a) \<and> \<not> dashed (ip_namespace (sg_params a)) \<and>
     plain_opt (Not \<circ> dashed) (ip_sub_id (sg_params a)) \<and> plain_opt plain_path (ip_pass_file (sg_params a))"
| "plain_command (Verify a) \<longleftrightarrow>
     plain_path (vf_file a) \<and> \<not> dashed (vf_signature a) \<and> \<not> dashed (vf_public_key a)"
| "plain_command (Bench a) \<longleftrightarrow> size_mib a < 2 ^ 64"
| "plain_command (Ssh a) \<longleftrightarrow>
     \<not> dashed (sa_target a) \<and> \<not> dashed (sa_namespace a) \<and> plain_opt (Not \<circ> dashed) (sa_sub_id a) \<and>
     plain_opt (Not \<circ> dashed) (sa_passphrase a) \<and> plain_opt plain_path (sa_pass_file a)"

lemma algorithms_read [simp]:
  "value_of (Choice algorithm_names) (algorithm_word a) = Some (ChoiceV (algorithm_word a))"
  "\<not> dashed (algorithm_word a)"
  by (cases a; simp add: algorithm_names_def dashed_def)+

lemma key_algorithms_read [simp]:
  "value_of (Choice key_algorithm_names) (key_algorithm_word k) = Some (ChoiceV (key_algorithm_word k))"
  "\<not> dashed (key_algorithm_word k)"
  by (cases k; simp add: key_algorithm_names_def dashed_def)+

lemma words_below [simp]:
  "unat (v :: u32) < 4294967296" "unat (p :: 16 word) < 65536"
  using unsigned_less [of v] unsigned_less [of p] by simp_all

lemmas table_simps = spec_tables spec_defs fields_def

definition word :: "bool \<Rightarrow> char option \<Rightarrow> string \<Rightarrow> string" where
  "word sh s l = (case s of Some c \<Rightarrow> either sh [CHR ''-'', c] (''--'' @ l) | None \<Rightarrow> ''--'' @ l)"

lemma say_specs:
  "say_arg sh (needs i s l k) (Some v) = [word sh s l, text_of_value v]"
  "say_arg sh (may i s l k d) (but x f y) = unless (y = x) [word sh s l, text_of_value (f y)]"
  "say_arg sh (may i s l k d) (map_option h r) = optional (word sh s l) (map_option (text_of_value \<circ> h) r)"
  "say_arg sh (switch i l) (flag b) = unless (\<not> b) [''--'' @ l]"
  by (auto simp: say_arg_def needs_def may_def switch_def but_def flag_def option_word_def word_def either_def
      unless_def optional_def split: option.splits)

lemma spec_ids:
  "arg_id (needs i s l k) = i" "arg_id (may i s l k d) = i" "arg_id (switch i l) = i"
  by (simp_all add: spec_defs)

lemma texts:
  "text_of_value \<circ> PathV = id" "text_of_value \<circ> TextV = id" "text_of_value \<circ> (NumV \<circ> unat) = show_nat \<circ> unat"
  by auto

lemmas say_simps = say_args_def fields_def say_specs spec_ids texts word_def option.map_id

text \<open>The words are those that the tables give for the fields.\<close>

lemma say_by_tables: "tl (say sh c) = say_args sh (specs_of (sub_of c)) (to_matches c)"
proof (cases c)
  case (Encrypt a)
  show ?thesis unfolding Encrypt by (simp add: spec_tables say_simps)
next
  case (Decrypt a)
  show ?thesis unfolding Decrypt by (simp add: spec_tables say_simps)
next
  case (Keygen a)
  show ?thesis unfolding Keygen by (simp add: spec_tables say_simps)
next
  case (Derive a)
  show ?thesis unfolding Derive by (simp add: spec_tables say_simps)
next
  case (Sign a)
  show ?thesis unfolding Sign by (simp add: spec_tables say_simps Let_def)
next
  case (Verify a)
  show ?thesis unfolding Verify by (simp add: spec_tables say_simps)
next
  case (Bench a)
  show ?thesis unfolding Bench by (simp add: spec_tables say_simps)
next
  case (Ssh a)
  have "say_arg sh \<lparr>arg_id = i, short = None, long = None, form = Last, required = False, default = None\<rparr>
      (if ws = [] then None else Some (WordsV ws)) = unless (ws = []) (''--'' # ws)" for i ws
    by (simp add: say_arg_def unless_def)
  moreover have "say_arg sh \<lparr>arg_id = i, short = None, long = None, form = Positional k, required = True,
      default = None\<rparr> (Some v) = [text_of_value v]" for i k v
    by (simp add: say_arg_def)
  ultimately show ?thesis unfolding Ssh by (simp add: spec_tables say_simps del: if_split_asm split del: if_split)
qed

lemma say_subcommand:
  "\<exists>nss. find (\<lambda>(nss, sub). hd (say sh c) \<in> set nss) subcommands = Some (nss, sub_of c)"
  by (cases c) (simp_all add: subcommands_def Let_def)

text \<open>What is said of a plain command can be read back, and nothing required is missing.\<close>

lemma said_fields:
  assumes "plain_command c"
  shows "list_all (\<lambda>a. case to_matches c (arg_id a) of None \<Rightarrow> \<not> required a | Some v \<Rightarrow> sayable (form a) v)
    (specs_of (sub_of c))"
  using assms by (cases c) (auto simp: table_simps but_def flag_def plain_path_def plain_opt_def decimal_show_nat show_nat_not_dashed
      Let_def simp del: value_of.simps(4) split: option.splits)

lemma dom_fields: "dom (fields xs) \<subseteq> set (map fst xs)"
  by (force simp: fields_def dom_def split: option.splits dest: map_of_SomeD)

lemma said_ids: "dom (to_matches c) \<subseteq> arg_id ` set (specs_of (sub_of c))"
  by (cases c; simp only: to_matches.simps Let_def; rule subset_trans [OF dom_fields])
    (simp_all add: spec_tables spec_ids)

lemma choices_read [simp]:
  "algorithm_word a = ''aes256gcm'' \<longleftrightarrow> a = Aes256Gcm" "algorithm_word a = ''chacha20poly1305'' \<longleftrightarrow> a = ChaCha20Poly1305"
  "key_algorithm_word k = ''ed25519'' \<longleftrightarrow> k = Ed25519" "key_algorithm_word k = ''rsa'' \<longleftrightarrow> k = Rsa"
  "key_algorithm_word k = ''aes256-gcm'' \<longleftrightarrow> k = AesKey"
  by (cases a; cases k; simp)+

lemma only_algorithms:
  "a \<noteq> Aes256Gcm \<Longrightarrow> ChaCha20Poly1305 = a" "k \<noteq> Ed25519 \<Longrightarrow> k \<noteq> Rsa \<Longrightarrow> AesKey = k"
  by (cases a; simp) (cases k; simp)

text \<open>A field that was left out has the default of its declaration.\<close>

lemma with_defaults_fields:
  "with_defaults specs (fields xs) i =
    (case (case map_of xs i of Some r \<Rightarrow> r | None \<Rightarrow> None) of
       Some v \<Rightarrow> Some v
     | None \<Rightarrow> (case find (\<lambda>a. arg_id a = i) specs of None \<Rightarrow> None | Some a \<Rightarrow> default a))"
  by (simp add: with_defaults_def fields_def)

lemma case_but:
  "(case but d f v of None \<Rightarrow> Some (f d) | Some x \<Rightarrow> Some x) = Some (f v)"
  by (simp add: but_def)

lemma case_but_numbers:
  "(case but 0 (NumV \<circ> unat) (n :: u32) of None \<Rightarrow> Some (NumV 0) | Some x \<Rightarrow> Some x) = Some (NumV (unat n))"
  "i = unat (numeral k :: u32) \<Longrightarrow> (case but (numeral k) (NumV \<circ> unat) (n :: u32) of None \<Rightarrow> Some (NumV i) | Some x \<Rightarrow> Some x) =
    Some (NumV (unat n))"
  by (simp_all add: but_def)

lemma case_but_choices:
  "(case but Aes256Gcm (ChoiceV \<circ> algorithm_word) x of None \<Rightarrow> Some (ChoiceV ''aes256gcm'') | Some x \<Rightarrow> Some x) =
    Some (ChoiceV (algorithm_word x))"
  "(case but Ed25519 (ChoiceV \<circ> key_algorithm_word) y of None \<Rightarrow> Some (ChoiceV ''ed25519'') | Some x \<Rightarrow> Some x) =
    Some (ChoiceV (key_algorithm_word y))"
  by (simp_all add: but_def)

lemma case_given: "(case r of None \<Rightarrow> None | Some x \<Rightarrow> Some x) = r"
  by (simp split: option.splits)

lemma spec_defaults:
  "default (needs i s l k) = None" "default (may i s l k d) = d" "default (switch i l) = None"
  by (simp_all add: spec_defs)

lemmas default_simps = with_defaults_fields spec_tables spec_ids spec_defaults case_but case_but_numbers
  case_but_choices case_given map_option_case [symmetric] option.map_ident

lemma values_read:
  "m i = Some (PathV p) \<Longrightarrow> path_at m i = Some p" "m i = Some (TextV t) \<Longrightarrow> text_at m i = Some t"
  "m i = Some (NumV n) \<Longrightarrow> num_at m i = Some n"
  "m i = Some (ChoiceV (algorithm_word a)) \<Longrightarrow> algorithm_at m i = Some a"
  "m i = Some (ChoiceV (key_algorithm_word k)) \<Longrightarrow> key_algorithm_at m i = Some k"
  "m i = map_option PathV p' \<Longrightarrow> path_at m i = p'" "m i = map_option TextV t' \<Longrightarrow> text_at m i = t'"
  "m i = map_option (NumV \<circ> unat) w \<Longrightarrow> num_at m i = map_option unat w"
  "m i = flag b \<Longrightarrow> is_on m i = b"
  by (auto simp: at_defs flag_def only_algorithms split: option.splits)

lemma fill_encrypt: "fill SubEncrypt (with_defaults encrypt_specs (to_matches (Encrypt a))) = Some (Encrypt a)"
proof -
  let ?m = "with_defaults encrypt_specs (to_matches (Encrypt a))"
  have "?m ''plain'' = Some (PathV (ea_plain a))" "?m ''cipher'' = Some (PathV (ea_cipher a))"
    "?m ''algorithm'' = Some (ChoiceV (algorithm_word (ea_algorithm a)))"
    "?m ''force'' = flag (ea_force a)" "?m ''pass_file'' = map_option PathV (ea_pass_file a)"
    by (simp_all add: default_simps cong: option.case_cong)
  then show ?thesis
    by (simp add: values_read del: to_matches.simps)
qed

lemma fill_derive: "fill SubDerive (with_defaults derive_specs (to_matches (Derive a))) = Some (Derive a)"
proof -
  let ?m = "with_defaults derive_specs (to_matches (Derive a))"
  have "?m ''algo'' = Some (ChoiceV (key_algorithm_word (da_algo a)))" "?m ''bits'' = Some (NumV (da_bits a))"
    "?m ''passphrase'' = map_option TextV (da_passphrase a)" "?m ''namespace'' = Some (TextV (da_namespace a))"
    "?m ''key_version'' = Some (NumV (unat (da_key_version a)))" "?m ''output'' = Some (PathV (da_output a))"
    "?m ''sub_id'' = map_option TextV (da_sub_id a)" "?m ''force'' = flag (da_force a)"
    "?m ''openssh'' = flag (da_openssh a)" "?m ''comment'' = Some (TextV (da_comment a))"
    by (simp_all add: default_simps cong: option.case_cong)
  then show ?thesis
    by (simp add: values_read del: to_matches.simps)
qed

lemma fill_decrypt: "fill SubDecrypt (with_defaults decrypt_specs (to_matches (Decrypt a))) = Some (Decrypt a)"
proof -
  let ?m = "with_defaults decrypt_specs (to_matches (Decrypt a))"
  have "?m ''plain'' = Some (PathV (dc_plain a))" "?m ''cipher'' = Some (PathV (dc_cipher a))"
    "?m ''force'' = flag (dc_force a)" "?m ''pass_file'' = map_option PathV (dc_pass_file a)"
    by (simp_all add: default_simps cong: option.case_cong)
  then show ?thesis
    by (simp add: values_read del: to_matches.simps)
qed

lemma fill_keygen: "fill SubKeygen (with_defaults keygen_specs (to_matches (Keygen a))) = Some (Keygen a)"
proof -
  let ?m = "with_defaults keygen_specs (to_matches (Keygen a))"
  have "?m ''algo'' = Some (ChoiceV (key_algorithm_word (kg_algo a)))" "?m ''bits'' = Some (NumV (kg_bits a))"
    "?m ''output'' = Some (PathV (kg_output a))" "?m ''sub_id'' = map_option TextV (kg_sub_id a)"
    "?m ''force'' = flag (kg_force a)" "?m ''openssh'' = flag (kg_openssh a)"
    "?m ''comment'' = Some (TextV (kg_comment a))"
    by (simp_all add: default_simps cong: option.case_cong)
  then show ?thesis
    by (simp add: values_read del: to_matches.simps)
qed

lemma fill_sign: "fill SubSign (with_defaults sign_specs (to_matches (Sign a))) = Some (Sign a)"
proof -
  let ?m = "with_defaults sign_specs (to_matches (Sign a))" and ?p = "sg_params a"
  have "?m ''file'' = Some (PathV (sg_file a))" "?m ''namespace'' = Some (TextV (ip_namespace ?p))"
    "?m ''key_version'' = Some (NumV (unat (ip_key_version ?p)))" "?m ''sub_id'' = map_option TextV (ip_sub_id ?p)"
    "?m ''pass_file'' = map_option PathV (ip_pass_file ?p)"
    by (simp_all add: default_simps Let_def cong: option.case_cong)
  then show ?thesis
    by (simp add: values_read del: to_matches.simps)
qed

lemma fill_verify: "fill SubVerify (with_defaults verify_specs (to_matches (Verify a))) = Some (Verify a)"
proof -
  let ?m = "with_defaults verify_specs (to_matches (Verify a))"
  have "?m ''file'' = Some (PathV (vf_file a))" "?m ''signature'' = Some (TextV (vf_signature a))"
    "?m ''public_key'' = Some (TextV (vf_public_key a))"
    by (simp_all add: default_simps cong: option.case_cong)
  then show ?thesis
    by (simp add: values_read del: to_matches.simps)
qed

lemma fill_bench: "fill SubBench (with_defaults bench_specs (to_matches (Bench a))) = Some (Bench a)"
proof -
  let ?m = "with_defaults bench_specs (to_matches (Bench a))"
  have "?m ''size_mib'' = Some (NumV (size_mib a))" "?m ''samples'' = Some (NumV (unat (samples a)))"
    "?m ''warmup'' = Some (NumV (unat (warmup a)))" "?m ''kdf_runs'' = Some (NumV (unat (kdf_runs a)))"
    by (simp_all add: default_simps cong: option.case_cong)
  then show ?thesis
    by (simp add: values_read del: to_matches.simps)
qed

lemma fill_ssh: "fill SubSsh (with_defaults ssh_specs (to_matches (Ssh a))) = Some (Ssh a)"
proof -
  let ?m = "with_defaults ssh_specs (to_matches (Ssh a))"
  have "?m ''target'' = Some (TextV (sa_target a))" "?m ''passphrase'' = map_option TextV (sa_passphrase a)"
    "?m ''namespace'' = Some (TextV (sa_namespace a))"
    "?m ''key_version'' = Some (NumV (unat (sa_key_version a)))" "?m ''sub_id'' = map_option TextV (sa_sub_id a)"
    "?m ''pass_file'' = map_option PathV (sa_pass_file a)"
    "?m ''ssh_args'' = (if sa_ssh_args a = [] then None else Some (WordsV (sa_ssh_args a)))"
    by (simp_all add: default_simps cong: option.case_cong)
  moreover have "?m ''port'' = map_option (NumV \<circ> unat) (sa_port a)"
    by (simp add: default_simps comp_def cong: option.case_cong)
  ultimately show ?thesis
    by (simp add: values_read words_at_def option.map_comp option.map_ident comp_def del: to_matches.simps)
qed

lemma fill_said: "fill (sub_of c) (with_defaults (specs_of (sub_of c)) (to_matches c)) = Some c"
  by (cases c) (simp_all only: sub_of.simps specs_of.simps fill_encrypt fill_decrypt fill_keygen fill_derive
    fill_sign fill_verify fill_bench fill_ssh)

text \<open>C14. Every command can be said: with the documented words for its options, in their short or their
  long spelling, those that are off or have their documented default left out, it is parsed by every
  matcher that keeps what clap promises as exactly this command, for all eight subcommands, provided
  that its paths are not empty, none of its values starts with a dash and its numbers fit 64 bits.\<close>

theorem said_commands_parse:
  assumes "clap_lawful clap" and "plain_command c"
  shows "cli_parse clap (say sh c) = Parsed (Some c)"
proof -
  obtain w ws where said: "say sh c = w # ws" by (cases c) (simp_all add: Let_def)
  have "clap (specs_of (sub_of c)) ws = Some (with_defaults (specs_of (sub_of c)) (to_matches c))"
    using clap_said [OF assms(1) tables_declared tables_end said_ids said_fields [OF assms(2)] tables_long, of sh]
    by (simp add: said flip: say_by_tables)
  with say_subcommand [of sh c] fill_said [of c] show ?thesis
    by (auto simp: cli_parse_def said simp del: fill.simps specs_of.simps)
qed

theorem said_commands_parse_witness:
  "cli_parse walk_clap [''ssh'', ''user@host'', ''-n'', ''work'', ''--sub-id'', ''deploy'', ''-p'', ''2222'', ''--'', ''-v'', ''-A''] =
   Parsed (Some (Ssh \<lparr>sa_target = ''user@host'', sa_passphrase = None, sa_namespace = ''work'', sa_key_version = 0,
        sa_sub_id = Some ''deploy'', sa_pass_file = None, sa_port = Some 2222, sa_ssh_args = [''-v'', ''-A'']\<rparr>))"
proof -
  let ?c = "Ssh \<lparr>sa_target = ''user@host'', sa_passphrase = None, sa_namespace = ''work'', sa_key_version = 0,
        sa_sub_id = Some ''deploy'', sa_pass_file = None, sa_port = Some 2222, sa_ssh_args = [''-v'', ''-A'']\<rparr>"
  have "show_nat 2222 = ''2222''" by code_simp
  then have "say True ?c = [''ssh'', ''user@host'', ''-n'', ''work'', ''--sub-id'', ''deploy'', ''-p'', ''2222'', ''--'',
      ''-v'', ''-A'']"
    by (simp add: unless_def optional_def either_def)
  moreover have "plain_command ?c" by (simp add: plain_opt_def dashed_def)
  ultimately show ?thesis using said_commands_parse [OF walk_clap_lawful, of ?c True] by (simp only:)
qed

text \<open>What the matcher at the end of \<open>Cry_Clap\<close> reads, every lawful one reads alike.\<close>

lemma cli_parse_walk:
  assumes "clap_lawful clap" and "cli_parse walk_clap ws = Parsed (Some c)"
  shows "cli_parse clap ws = Parsed (Some c)"
  using assms(2) clap_matches [OF assms(1) tables_declared]
  by (fastforce simp: cli_parse_def split: list.splits option.splits)

text \<open>Running the program on its words: no run when clap ends the process.\<close>

definition run_words ::
  "matcher \<Rightarrow> crypto \<Rightarrow> ssh_env \<Rightarrow> clock \<Rightarrow> string list \<Rightarrow> cli \<Rightarrow> (nat \<times> cli) option" where
  "run_words clap P env clock ws s =
    (case cli_parse clap ws of ByClap \<Rightarrow> None | Parsed c \<Rightarrow> Some (cry_main P env clock c s))"

section \<open>What the program tells the user to run\<close>

lemma hex_not_dashed: "\<not> dashed (bytes_to_hex bs)"
proof (cases bs)
  case (Cons b bs)
  have "hex_digit n \<noteq> CHR ''-''" if "n < 16" for n
    using that by (auto simp: hex_digit_def of_char_digit dest!: arg_cong [where f = "of_char :: char \<Rightarrow> nat"])
  moreover have "unat b div 16 < 16" using unat_byte_less [of b] by simp
  ultimately show ?thesis by (simp add: Cons bytes_to_hex_def show_hex2_def dashed_def)
qed (simp add: bytes_to_hex_def dashed_def)

lemma verify_words_parse:
  assumes "clap_lawful clap" "plain_path f" "\<not> dashed sig" "\<not> dashed key"
  shows "cli_parse clap [''verify'', ''-f'', f, ''-s'', sig, ''-k'', key] =
    Parsed (Some (Verify \<lparr>vf_file = f, vf_signature = sig, vf_public_key = key\<rparr>))"
  using assms(2-) by (intro cli_parse_walk [OF assms(1)])
    (simp add: cli_parse_def subcommands_def walk_clap_def verify_specs_def spec_defs named_def put_def
      plain_path_def has_required_def with_defaults_def at_defs)

lemma derive_words_parse:
  assumes "clap_lawful clap" "\<not> dashed ns"
  shows "cli_parse clap [''derive'', ''-n'', ns, ''--openssh''] =
    Parsed (Some (Derive \<lparr>da_algo = Ed25519, da_bits = 3072, da_passphrase = None, da_namespace = ns,
      da_key_version = 0, da_output = ''k'', da_sub_id = None, da_force = False, da_openssh = True,
      da_comment = ''CryDNA''\<rparr>))"
  using assms(2) by (intro cli_parse_walk [OF assms(1)])
    (simp add: cli_parse_def subcommands_def walk_clap_def derive_specs_def spec_defs named_def put_def
      has_required_def with_defaults_def at_defs)

text \<open>C13. The command line that \<open>cry sign\<close> prints works for files with a plain name, one of letters,
  digits and the characters \<open>/._-\<close> that a shell leaves alone (\<open>shell_word\<close>) and without a
  dash in front: when signing exits with code 0, a shell cuts the printed line into words with which
  \<open>cry\<close>, run anywhere on a file of that name with the signed content, exits with code 0;
  neither run changes a file.\<close>

theorem printed_verify_command_works:
  assumes "clap_lawful clap" and "ed25519_lawful P" and "argon2_sized P"
    and "cry_main P env clock (Some (Sign a)) s = (0, s1)" and "files (sys s) (sg_file a) = Some e"
    and "shell_word (sg_file a)" and "\<not> dashed (sg_file a)"
    and "calm (sys t)" and "files (sys t) (sg_file a) = Some e'" and "contents e' = contents e"
  shows "\<exists>key sig ws t1. printed s1 = printed s @
      [Row (''Public key'', key), Row (''File'', sg_file a), Row (''Signature'', sig)] \<and>
    length key = 64 \<and> length sig = 128 \<and>
    shell_words (verify_hint (sg_file a) sig key) = Some (''cry'' # ws) \<and>
    run_words clap P env' clock' ws t = Some (0, t1) \<and>
    files (sys s1) = files (sys s) \<and> files (sys t1) = files (sys t)"
proof -
  obtain key sig kb sb where
    rows: "printed s1 = printed s @
      [Row (''Public key'', key), Row (''File'', sg_file a), Row (''Signature'', sig)]"
    and sizes: "length key = 64" "length sig = 128" and hex: "key = bytes_to_hex kb" "sig = bytes_to_hex sb"
    and ok: "fst (cry_main P env' clock' (Some (Verify \<lparr>vf_file = sg_file a, vf_signature = sig,
      vf_public_key = key\<rparr>)) t) = 0"
    and kept: "files (sys s1) = files (sys s)"
    using printed_signature_verifies [OF assms(2-5,9,10,8)] by blast
  from sizes hex have words: "shell_word key" "shell_word sig" by (auto intro!: hex_shell_word)
  have path: "plain_path (sg_file a)" using assms(6,7) by (simp add: plain_path_def shell_word_def)
  let ?run = "cry_main P env' clock' (Some (Verify \<lparr>vf_file = sg_file a, vf_signature = sig, vf_public_key = key\<rparr>)) t"
  have "files (sys (snd ?run)) = files (sys t)"
    using touches_none cry_main_touches [of "Some (Verify v)" t P env' clock' for v] by (simp add: outputs_of_def)
  moreover have "run_words clap P env' clock' [''verify'', ''-f'', sg_file a, ''-s'', sig, ''-k'', key] t =
      Some (0, snd ?run)"
    using ok by (simp add: run_words_def verify_words_parse [OF assms(1) path] hex hex_not_dashed prod_eq_iff)
  ultimately show ?thesis
    using rows sizes kept verify_hint_words [OF assms(6) words(2,1)] by blast
qed

theorem printed_verify_command_works_witness:
  "\<exists>s1 key sig ws t1. cry_main demo_crypto (sample_ssh_env []) (\<lambda>n. of_nat n) (Some (Sign \<lparr>sg_file = ''a.pdf'',
      sg_params = \<lparr>ip_namespace = ''work'', ip_key_version = 3, ip_sub_id = None, ip_pass_file = Some ''k''\<rparr>\<rparr>))
      (sample_cli (sample_world [(''a.pdf'', [5]), (''k'', [1])])) = (0, s1) \<and>
    printed s1 = [Row (''Public key'', key), Row (''File'', ''a.pdf''), Row (''Signature'', sig)] \<and>
    shell_words (verify_hint ''a.pdf'' sig key) = Some (''cry'' # ws) \<and>
    run_words walk_clap demo_crypto (sample_ssh_env []) (\<lambda>n. of_nat n) ws
      (sample_cli (sample_world [(''a.pdf'', [5])])) = Some (0, t1)"
proof -
  let ?a = "\<lparr>sg_file = ''a.pdf'', sg_params = \<lparr>ip_namespace = ''work'', ip_key_version = 3, ip_sub_id = None,
      ip_pass_file = Some ''k''\<rparr>\<rparr>"
  let ?s = "sample_cli (sample_world [(''a.pdf'', [5]), (''k'', [1])])"
  obtain i where i: "identity_derive demo_crypto [1] ''work'' 3 None = Inr i"
    by (simp add: identity_derive_def demo_crypto_def)
  obtain s1 where run: "cry_main demo_crypto (sample_ssh_env []) (\<lambda>n. of_nat n) (Some (Sign ?a)) ?s = (0, s1)"
    by (simp add: cry_main_def on_sys_def run_sign_def read_passphrase_def fs_read_def file_open_def
        sample_files first_line_def i)
  have p: "printed ?s = []" by (simp add: sample_cli_def)
  have f: "shell_word (sg_file ?a)" "\<not> dashed (sg_file ?a)"
    by (simp_all add: shell_word_def shell_char_def dashed_def)
  from printed_verify_command_works [OF walk_clap_lawful demo_ed25519_lawful demo_argon2_sized run _ f, where
      t = "sample_cli (sample_world [(''a.pdf'', [5])])" and
      e = "\<lparr>contents = [5], mode = 420\<rparr>" and e' = "\<lparr>contents = [5], mode = 420\<rparr>" and
      env' = "sample_ssh_env []" and clock' = "\<lambda>n. of_nat n"] run p
  show ?thesis by (simp add: sample_files) blast
qed

text \<open>A file name with a blank in it is not quoted: the file that is looked for is another one.\<close>

lemma verify_hint_splits_blanks:
  assumes "shell_word f" "shell_word g" "shell_word sig" "shell_word key"
  shows "shell_words (verify_hint (f @ '' '' @ g) sig key) =
    Some [''cry'', ''verify'', ''-f'', f, g, ''-s'', sig, ''-k'', key]"
proof -
  have "list_all (\<lambda>c. shell_char c \<or> c = CHR '' '') (verify_hint (f @ '' '' @ g) sig key)"
    using assms by (auto simp: verify_hint_def shell_word_def list_all_iff) (simp_all add: shell_char_def)
  moreover have "cut_words [] (verify_hint (f @ '' '' @ g) sig key) = ''cry'' # ''verify'' # ''-f'' #
      cut_words [] (f @ CHR '' '' # g @ CHR '' '' # ''-s '' @ sig @ CHR '' '' # ''-k '' @ key)"
    by (simp add: verify_hint_def)
  ultimately show ?thesis by (simp add: shell_words_def cut_words_word assms)
qed

text \<open>C16. The command line that \<open>cry ssh\<close> prints, to get the public key for the server, derives an
  Ed25519 identity in the namespace of the session, but in the first version and without
  sub-identity: the salt is the session's only if \<open>--key-version\<close> is 0 and \<open>--sub-id\<close> is
  not given, and then, for one passphrase, so is the identity.\<close>

theorem printed_derive_command:
  assumes "clap_lawful clap" and "shell_word (sa_namespace a)" and "\<not> dashed (sa_namespace a)"
  shows "\<exists>ws d. shell_words (derive_hint (sa_namespace a)) = Some (''cry'' # ws) \<and>
    cli_parse clap ws = Parsed (Some (Derive d)) \<and> da_algo d = Ed25519 \<and> da_openssh d \<and>
    (salt_input (da_namespace d) (da_key_version d) (da_sub_id d) =
       salt_input (sa_namespace a) (sa_key_version a) (sa_sub_id a) \<longleftrightarrow>
     sa_key_version a = 0 \<and> sa_sub_id a = None) \<and>
    (sa_key_version a = 0 \<and> sa_sub_id a = None \<longrightarrow>
     identity_derive P pass (da_namespace d) (da_key_version d) (da_sub_id d) =
       identity_derive P pass (sa_namespace a) (sa_key_version a) (sa_sub_id a))"
  using derive_hint_words [OF assms(2)] derive_words_parse [OF assms(1,3)]
  by (auto simp: salt_input_inject)

theorem printed_derive_command_witness:
  "\<exists>ws d. shell_words (derive_hint ''work'') = Some (''cry'' # ws) \<and>
    cli_parse walk_clap ws = Parsed (Some (Derive d)) \<and>
    salt_input (da_namespace d) (da_key_version d) (da_sub_id d) \<noteq> salt_input ''work'' 2 None"
proof -
  let ?a = "sample_ssh_args\<lparr>sa_namespace := ''work'', sa_key_version := 2\<rparr>"
  have "shell_word (sa_namespace ?a)" "\<not> dashed (sa_namespace ?a)"
    by (simp_all add: shell_word_def shell_char_def dashed_def)
  from printed_derive_command [OF walk_clap_lawful this] show ?thesis
    by (auto simp: sample_ssh_args_def)
qed

section \<open>The documented command lines\<close>

text \<open>
  The examples of the help text, and those of the README that are not among them and are accepted.
  A line is cut at its blanks and ends where a comment starts.
\<close>

definition help_examples :: "string list" where
  "help_examples =
    [''  cry encrypt  -p secret.txt -c secret.cry'',
     ''  cry encrypt  -p secret.txt -c secret.cry -a chacha20poly1305'',
     ''  cry decrypt  -c secret.cry -p recovered.txt'',
     ''  cry keygen   --algo ed25519 -o work         # random keypair'',
     ''  cry derive   --algo ed25519 -n work -o work # deterministic keypair'',
     ''  cry sign     -f report.pdf -n work          # sign a file'',
     ''  cry verify   -f report.pdf -s <SIG> -k <PUB>  # verify a signature'',
     ''  cry ssh      user@host                      # SSH with ephemeral derived key'',
     ''  cry ssh      user@host -n work              # SSH using 'work' namespace key'',
     ''  cry ssh      user@host -- -v -L 8080:localhost:8080  # extra ssh flags'']"

definition readme_examples :: "string list" where
  "readme_examples =
    [''cry encrypt -p secret.txt -c secret.cry --force'',
     ''cry decrypt -c secret.cry -p recovered.txt --force'',
     ''cry encrypt -p secret.txt -c secret.cry --pass-file /run/secrets/passphrase'',
     ''cry decrypt -c secret.cry -p out.txt    --pass-file /run/secrets/passphrase'',
     ''cry derive --openssh'',
     ''cry ssh user@host -n work --key-version 2'',
     ''cry ssh user@host -n work --sub-id deploy'',
     ''cry ssh user@host --pass-file /run/secrets/passphrase'',
     ''cry ssh user@host -p 2222'',
     ''cry ssh user@host -- -v -L 8080:localhost:8080 -A'',
     ''cry ssh user@host -- -o StrictHostKeyChecking=accept-new'',
     ''cry keygen --algo ed25519 -o k'',
     ''cry keygen --algo rsa -o server'',
     ''cry keygen --algo rsa --bits 4096 -o server'',
     ''cry derive --algo ed25519 -n prod --sub-id deploy -o deploy'',
     ''cry derive -n work --key-version 2 --openssh'',
     ''cry bench'',
     ''cry bench --size-mib 256 --samples 9 --warmup 2 --kdf-runs 7'']"

definition example_words :: "string \<Rightarrow> string list" where
  "example_words line = tl (cut_words [] (takeWhile (\<lambda>c. c \<noteq> CHR ''#'') line))"

text \<open>The commands without their options.\<close>

definition ssh_to :: "string \<Rightarrow> ssh_args" where
  "ssh_to host = \<lparr>sa_target = host, sa_passphrase = None, sa_namespace = ''default'', sa_key_version = 0,
     sa_sub_id = None, sa_pass_file = None, sa_port = None, sa_ssh_args = []\<rparr>"

definition default_keygen :: keygen_args where
  "default_keygen = \<lparr>kg_algo = Ed25519, kg_bits = 3072, kg_output = ''k'', kg_sub_id = None,
     kg_force = False, kg_openssh = False, kg_comment = ''CryDNA''\<rparr>"

definition default_derive :: derive_args where
  "default_derive = \<lparr>da_algo = Ed25519, da_bits = 3072, da_passphrase = None, da_namespace = ''default'',
     da_key_version = 0, da_output = ''k'', da_sub_id = None, da_force = False, da_openssh = False,
     da_comment = ''CryDNA''\<rparr>"

definition help_commands :: "command list" where
  "help_commands =
    [Encrypt \<lparr>ea_plain = ''secret.txt'', ea_cipher = ''secret.cry'', ea_algorithm = Aes256Gcm,
       ea_force = False, ea_pass_file = None\<rparr>,
     Encrypt \<lparr>ea_plain = ''secret.txt'', ea_cipher = ''secret.cry'', ea_algorithm = ChaCha20Poly1305,
       ea_force = False, ea_pass_file = None\<rparr>,
     Decrypt \<lparr>dc_cipher = ''secret.cry'', dc_plain = ''recovered.txt'', dc_force = False, dc_pass_file = None\<rparr>,
     Keygen (default_keygen\<lparr>kg_output := ''work''\<rparr>),
     Derive (default_derive\<lparr>da_namespace := ''work'', da_output := ''work''\<rparr>),
     Sign \<lparr>sg_file = ''report.pdf'', sg_params = \<lparr>ip_namespace = ''work'', ip_key_version = 0,
       ip_sub_id = None, ip_pass_file = None\<rparr>\<rparr>,
     Verify \<lparr>vf_file = ''report.pdf'', vf_signature = ''<SIG>'', vf_public_key = ''<PUB>''\<rparr>,
     Ssh (ssh_to ''user@host''),
     Ssh (ssh_to ''user@host''\<lparr>sa_namespace := ''work''\<rparr>),
     Ssh (ssh_to ''user@host''\<lparr>sa_ssh_args := [''-v'', ''-L'', ''8080:localhost:8080'']\<rparr>)]"

definition readme_commands :: "command list" where
  "readme_commands =
    [Encrypt \<lparr>ea_plain = ''secret.txt'', ea_cipher = ''secret.cry'', ea_algorithm = Aes256Gcm,
       ea_force = True, ea_pass_file = None\<rparr>,
     Decrypt \<lparr>dc_cipher = ''secret.cry'', dc_plain = ''recovered.txt'', dc_force = True, dc_pass_file = None\<rparr>,
     Encrypt \<lparr>ea_plain = ''secret.txt'', ea_cipher = ''secret.cry'', ea_algorithm = Aes256Gcm,
       ea_force = False, ea_pass_file = Some ''/run/secrets/passphrase''\<rparr>,
     Decrypt \<lparr>dc_cipher = ''secret.cry'', dc_plain = ''out.txt'', dc_force = False,
       dc_pass_file = Some ''/run/secrets/passphrase''\<rparr>,
     Derive (default_derive\<lparr>da_openssh := True\<rparr>),
     Ssh (ssh_to ''user@host''\<lparr>sa_namespace := ''work'', sa_key_version := 2\<rparr>),
     Ssh (ssh_to ''user@host''\<lparr>sa_namespace := ''work'', sa_sub_id := Some ''deploy''\<rparr>),
     Ssh (ssh_to ''user@host''\<lparr>sa_pass_file := Some ''/run/secrets/passphrase''\<rparr>),
     Ssh (ssh_to ''user@host''\<lparr>sa_port := Some 2222\<rparr>),
     Ssh (ssh_to ''user@host''\<lparr>sa_ssh_args := [''-v'', ''-L'', ''8080:localhost:8080'', ''-A'']\<rparr>),
     Ssh (ssh_to ''user@host''\<lparr>sa_ssh_args := [''-o'', ''StrictHostKeyChecking=accept-new'']\<rparr>),
     Keygen default_keygen,
     Keygen (default_keygen\<lparr>kg_algo := Rsa, kg_output := ''server''\<rparr>),
     Keygen (default_keygen\<lparr>kg_algo := Rsa, kg_bits := 4096, kg_output := ''server''\<rparr>),
     Derive (default_derive\<lparr>da_namespace := ''prod'', da_sub_id := Some ''deploy'', da_output := ''deploy''\<rparr>),
     Derive (default_derive\<lparr>da_namespace := ''work'', da_key_version := 2, da_openssh := True\<rparr>),
     Bench \<lparr>size_mib = 256, samples = 7, warmup = 2, kdf_runs = 5\<rparr>,
     Bench \<lparr>size_mib = 256, samples = 9, warmup = 2, kdf_runs = 7\<rparr>]"

lemmas parse_simps = cli_parse_def subcommands_def walk_clap_def spec_tables spec_defs named_def put_def
  has_required_def with_defaults_def at_defs positional_def dashed_def algorithm_names_def
  key_algorithm_names_def decimal_def

lemmas command_simps = ssh_to_def default_keygen_def default_derive_def

lemma walk_help: "list_all2 (\<lambda>l c. cli_parse walk_clap (example_words l) = Parsed (Some c)) help_examples help_commands"
proof -
  have words: "map example_words help_examples =
    [[''encrypt'', ''-p'', ''secret.txt'', ''-c'', ''secret.cry''],
     [''encrypt'', ''-p'', ''secret.txt'', ''-c'', ''secret.cry'', ''-a'', ''chacha20poly1305''],
     [''decrypt'', ''-c'', ''secret.cry'', ''-p'', ''recovered.txt''],
     [''keygen'', ''--algo'', ''ed25519'', ''-o'', ''work''],
     [''derive'', ''--algo'', ''ed25519'', ''-n'', ''work'', ''-o'', ''work''],
     [''sign'', ''-f'', ''report.pdf'', ''-n'', ''work''],
     [''verify'', ''-f'', ''report.pdf'', ''-s'', ''<SIG>'', ''-k'', ''<PUB>''],
     [''ssh'', ''user@host''],
     [''ssh'', ''user@host'', ''-n'', ''work''],
     [''ssh'', ''user@host'', ''--'', ''-v'', ''-L'', ''8080:localhost:8080'']]"
    by (simp add: help_examples_def example_words_def)
  have "list_all2 (\<lambda>ws c. cli_parse walk_clap ws = Parsed (Some c)) (map example_words help_examples) help_commands"
    unfolding words
    by (simp add: parse_simps help_commands_def command_simps)
  then show ?thesis by (simp only: list.rel_map)
qed

lemma walk_readme: "list_all2 (\<lambda>l c. cli_parse walk_clap (example_words l) = Parsed (Some c)) readme_examples readme_commands"
proof -
  have words: "map example_words readme_examples =
    [[''encrypt'', ''-p'', ''secret.txt'', ''-c'', ''secret.cry'', ''--force''],
     [''decrypt'', ''-c'', ''secret.cry'', ''-p'', ''recovered.txt'', ''--force''],
     [''encrypt'', ''-p'', ''secret.txt'', ''-c'', ''secret.cry'', ''--pass-file'', ''/run/secrets/passphrase''],
     [''decrypt'', ''-c'', ''secret.cry'', ''-p'', ''out.txt'', ''--pass-file'', ''/run/secrets/passphrase''],
     [''derive'', ''--openssh''],
     [''ssh'', ''user@host'', ''-n'', ''work'', ''--key-version'', ''2''],
     [''ssh'', ''user@host'', ''-n'', ''work'', ''--sub-id'', ''deploy''],
     [''ssh'', ''user@host'', ''--pass-file'', ''/run/secrets/passphrase''],
     [''ssh'', ''user@host'', ''-p'', ''2222''],
     [''ssh'', ''user@host'', ''--'', ''-v'', ''-L'', ''8080:localhost:8080'', ''-A''],
     [''ssh'', ''user@host'', ''--'', ''-o'', ''StrictHostKeyChecking=accept-new''],
     [''keygen'', ''--algo'', ''ed25519'', ''-o'', ''k''],
     [''keygen'', ''--algo'', ''rsa'', ''-o'', ''server''],
     [''keygen'', ''--algo'', ''rsa'', ''--bits'', ''4096'', ''-o'', ''server''],
     [''derive'', ''--algo'', ''ed25519'', ''-n'', ''prod'', ''--sub-id'', ''deploy'', ''-o'', ''deploy''],
     [''derive'', ''-n'', ''work'', ''--key-version'', ''2'', ''--openssh''],
     [''bench''],
     [''bench'', ''--size-mib'', ''256'', ''--samples'', ''9'', ''--warmup'', ''2'', ''--kdf-runs'', ''7'']]"
    by (simp add: readme_examples_def example_words_def)
  have "list_all2 (\<lambda>ws c. cli_parse walk_clap ws = Parsed (Some c)) (map example_words readme_examples) readme_commands"
    unfolding words
    by (simp add: parse_simps readme_commands_def command_simps)
  then show ?thesis by (simp only: list.rel_map)
qed

text \<open>The three that clap refuses: \<open>aes256gcm\<close> is no key algorithm, and \<open>derive\<close> has no
  option \<open>--private-key-out\<close>.\<close>

lemma readme_refused:
  assumes "clap_lawful clap"
  shows "cli_parse clap [''keygen'', ''--algo'', ''aes256gcm'', ''-o'', ''aes''] = ByClap"
    and "cli_parse clap [''derive'', ''--algo'', ''aes256gcm'', ''--passphrase'', ''correct horse battery staple'',
      ''-n'', ''backup'', ''-o'', ''backup''] = ByClap"
    and "cli_parse clap [''derive'', ''-n'', ''work'', ''--openssh'', ''--private-key-out'', ''./work.id''] = ByClap"
proof -
  let ?algo = "may ''algo'' None ''algo'' (Choice key_algorithm_names) (Some (ChoiceV ''ed25519''))"
  have algo: "?algo \<in> set keygen_specs" "?algo \<in> set derive_specs" "long ?algo = Some ''algo''"
    "form ?algo = Takes (Choice key_algorithm_names)" "''aes256gcm'' \<notin> set (concat key_algorithm_names)"
    by (simp_all add: spec_tables may_def key_algorithm_names_def)
  have dash: "\<not> dashed ''aes256gcm''" by (simp add: dashed_def)
  note tables = tables_declared [of SubKeygen, unfolded specs_of.simps] tables_declared [of SubDerive, unfolded specs_of.simps]
  from clap_refuses_choice [OF assms tables(1) _ _ algo(1,3,4,5) dash, of "[]" "[''-o'', ''aes'']"]
  show "cli_parse clap [''keygen'', ''--algo'', ''aes256gcm'', ''-o'', ''aes''] = ByClap"
    by (simp add: cli_parse_def subcommands_def)
  from clap_refuses_choice [OF assms tables(2) _ _ algo(2,3,4,5) dash, of "[]"
      "[''--passphrase'', ''correct horse battery staple'', ''-n'', ''backup'', ''-o'', ''backup'']"]
  show "cli_parse clap [''derive'', ''--algo'', ''aes256gcm'', ''--passphrase'', ''correct horse battery staple'',
      ''-n'', ''backup'', ''-o'', ''backup''] = ByClap"
    by (simp add: cli_parse_def subcommands_def)
  have "walk derive_specs [''-n'', ''work'', ''--openssh''] \<noteq> None" by (simp add: parse_simps)
  moreover have "''private-key-out'' \<notin> set (List.map_filter long derive_specs)"
    by (simp add: spec_tables spec_defs map_filter_simps)
  ultimately show "cli_parse clap [''derive'', ''-n'', ''work'', ''--openssh'', ''--private-key-out'', ''./work.id''] = ByClap"
    using clap_refuses_unknown [OF assms tables(2), of "[''-n'', ''work'', ''--openssh'']" "''private-key-out''" "[''./work.id'']"]
    by (simp add: cli_parse_def subcommands_def)
qed

text \<open>C15. The documented command lines: the ten examples of the help text and eighteen further ones of the
  README parse, under every matcher that keeps what clap promises, to the commands they are meant
  to be, defaults filled in; the remaining three of the README, two with \<open>--algo aes256gcm\<close> and one with
  \<open>--private-key-out\<close>, never reach the program.\<close>

theorem documented_command_lines:
  assumes "clap_lawful clap"
  shows "list_all2 (\<lambda>l c. cli_parse clap (example_words l) = Parsed (Some c)) help_examples help_commands \<and>
    list_all2 (\<lambda>l c. cli_parse clap (example_words l) = Parsed (Some c)) readme_examples readme_commands \<and>
    cli_parse clap [''keygen'', ''--algo'', ''aes256gcm'', ''-o'', ''aes''] = ByClap \<and>
    cli_parse clap [''derive'', ''--algo'', ''aes256gcm'', ''--passphrase'', ''correct horse battery staple'',
      ''-n'', ''backup'', ''-o'', ''backup''] = ByClap \<and>
    cli_parse clap [''derive'', ''-n'', ''work'', ''--openssh'', ''--private-key-out'', ''./work.id''] = ByClap"
proof (intro conjI readme_refused assms)
  show "list_all2 (\<lambda>l c. cli_parse clap (example_words l) = Parsed (Some c)) help_examples help_commands"
    by (rule list_all2_mono [OF walk_help cli_parse_walk [OF assms]])
  show "list_all2 (\<lambda>l c. cli_parse clap (example_words l) = Parsed (Some c)) readme_examples readme_commands"
    by (rule list_all2_mono [OF walk_readme cli_parse_walk [OF assms]])
qed

theorem documented_command_lines_witness:
  "cli_parse walk_clap (example_words (help_examples ! 9)) =
     Parsed (Some (Ssh (ssh_to ''user@host''\<lparr>sa_ssh_args := [''-v'', ''-L'', ''8080:localhost:8080'']\<rparr>))) \<and>
   cli_parse walk_clap [''keygen'', ''--algo'', ''aes256gcm'', ''-o'', ''aes''] = ByClap"
proof
  note all = documented_command_lines [OF walk_clap_lawful]
  have "9 < length help_examples" by (simp add: help_examples_def)
  from list_all2_nthD [OF conjunct1 [OF all] this]
  have "cli_parse walk_clap (example_words (help_examples ! 9)) = Parsed (Some (help_commands ! 9))" .
  moreover have "help_commands ! 9 = Ssh (ssh_to ''user@host''\<lparr>sa_ssh_args := [''-v'', ''-L'', ''8080:localhost:8080'']\<rparr>)"
    by (simp add: help_commands_def)
  ultimately show "cli_parse walk_clap (example_words (help_examples ! 9)) =
      Parsed (Some (Ssh (ssh_to ''user@host''\<lparr>sa_ssh_args := [''-v'', ''-L'', ''8080:localhost:8080'']\<rparr>)))"
    by (simp only:)
  show "cli_parse walk_clap [''keygen'', ''--algo'', ''aes256gcm'', ''-o'', ''aes''] = ByClap"
    by (rule conjunct1 [OF conjunct2 [OF conjunct2 [OF all]]])
qed

text \<open>The aliases of a subcommand mean the same.\<close>

lemma subcommand_aliases:
  "cli_parse clap (''en'' # ws) = cli_parse clap (''encrypt'' # ws)"
  "cli_parse clap (''-en'' # ws) = cli_parse clap (''encrypt'' # ws)"
  "cli_parse clap (''de'' # ws) = cli_parse clap (''decrypt'' # ws)"
  "cli_parse clap (''-de'' # ws) = cli_parse clap (''decrypt'' # ws)"
  by (simp_all add: cli_parse_def subcommands_def del: specs_of.simps fill.simps)

end
