(* ===== verification/Spec2Isabelle.thy ===== *)
theory Spec2Isabelle
  imports Cry_Cli Cry_Windows Cry_Endless Cry_Sizes Cry_Integration Cry_Usage
begin

text \<open>
  Verification of \<open>cry\<close>, a command-line tool for encrypting files, deriving and storing
  Ed25519 identities, signing and verifying, and opening ssh sessions with a derived key.

  \<^bold>\<open>The program and the theories.\<close> Each theory models one part of \<open>src/\<close>:

  \<^item> \<open>Cry_Prelude\<close>: bytes and texts (a text is its UTF-8 bytes as characters), results threaded
    through a state (\<open>and_then\<close> is \<open>?\<close>, \<open>map_err\<close> is \<open>Result::map_err\<close>),
    panics (\<open>outcome\<close>), decimal and hexadecimal printing, big-endian integers and the
    locales \<open>partial_codec\<close> and \<open>fixed_codec\<close> for encoders.
  \<^item> \<open>Cry_Error\<close>: \<open>error.rs\<close>, the error type and its messages.
  \<^item> \<open>Cry_Io\<close>: readers and writers as scripts of events (data in any fragments,
    interruptions, failures), \<open>read_exact\<close>, \<open>write_all\<close> and \<open>read_chunk\<close>
    of \<open>cipher.rs\<close>; the locales \<open>chunk_source\<close> and \<open>exact_source\<close>.
  \<^item> \<open>Cry_Crypto\<close>: the external primitives, a record of functions, and their documented
    laws as predicates, with one concrete instance that satisfies all of them.
  \<^item> \<open>Cry_Kdf\<close>: \<open>kdf.rs\<close>. \<open>Cry_Header\<close>: \<open>header.rs\<close>.
  \<^item> \<open>Cry_Chunks\<close>: the nonces, the associated data and the two streaming loops of
    \<open>cipher.rs\<close>.
  \<^item> \<open>Cry_World\<close>: Unix path names, a store of regular files, system calls that fail by a
    script, the random source, the terminal; \<open>Cry_Files\<close>: \<open>encrypt_file\<close> and
    \<open>decrypt_file\<close> of \<open>cipher.rs\<close>, both instances of the locale
    \<open>atomic_output\<close>.
  \<^item> \<open>Cry_Identity\<close>: \<open>crydna.rs\<close>. \<open>Cry_Keygen\<close>: \<open>keygen.rs\<close>, both
    commands instances of \<open>guarded_outputs\<close>.
  \<^item> \<open>Cry_Text\<close> and \<open>Cry_Ssh\<close>: the parsing of the agent's output and the Unix
    sessions of \<open>ssh.rs\<close>; \<open>Cry_Windows\<close>: its Windows sessions. The agent and the
    key file are instances of the locale \<open>raii\<close>, a guard released on every path.
  \<^item> \<open>Cry_Bench\<close>: \<open>bench.rs\<close>. \<open>Cry_Cli\<close>: \<open>main.rs\<close>, the passphrase
    helpers, the dispatch and the exit codes over all of the above.
  \<^item> \<open>Cry_Terminal\<close>: what \<open>main.rs\<close> prints around a command, and the words a shell makes of
    the command lines it suggests. \<open>Cry_Clap\<close>: the interface to clap, argument declarations and
    what is promised of matching words against them, with a matcher that keeps the promise.
    \<open>Cry_Syntax\<close>: the declarations of \<open>main.rs\<close>, \<open>keygen.rs\<close>, \<open>crydna.rs\<close>,
    \<open>ssh.rs\<close> and \<open>bench.rs\<close>, \<open>Cli::parse\<close> and the filling of the argument structs.
    \<open>Cry_Usage\<close>: which words give which command; the printed and the documented command lines.
  \<^item> \<open>Cry_Endless\<close>: \<open>read_chunk\<close> and \<open>encrypt_chunks\<close> again, over sources that need
    not end (a codatatype), as partial functions that agree with \<open>Cry_Chunks\<close> on finite sources.
  \<^item> \<open>Cry_Sizes\<close>: arrays of fixed length are byte lists here; no command depends on what the
    primitives do on lists of other lengths, which justifies it.
  \<^item> \<open>Cry_Tests\<close> and \<open>Cry_Integration\<close>: the unit and integration tests of \<open>cipher.rs\<close>,
    \<open>crydna.rs\<close> and \<open>main.rs\<close> as programs over the model.

  \<^bold>\<open>How state and operations correspond.\<close> A Rust function with effects is a function from the state
  it uses to its result and the new state: a \<open>reader\<close> or \<open>writer\<close> in the loops, the
  \<open>world\<close> in everything that touches files, the random source or the terminal, a trace of
  process events in the ssh sessions, and \<open>cli\<close>, all of these, in \<open>main\<close>. A
  \<open>Result\<close> is a sum with the error on the left; a function that can panic returns
  \<open>outcome\<close> or has \<open>failure\<close> as its error. Integers that can wrap are words of their
  width. Progress lines and zeroizing are left out of the operations, since no result
  depends on them.

  \<^bold>\<open>What the lemmas show.\<close> Encoders and parsers are inverse (header, frames, hexadecimal, ssh
  keys, agent output). The streaming loops implement an abstract body of sealed pieces, whatever the
  fragmentation; decryption accepts nothing else, nonces and associated data never repeat in a
  file, and of a body cut anywhere exactly the complete chunks are written, with a number that is not
  the committed count or an error. Over files: for every
  script of failing calls, and with reads that break off, the output is what it was or complete, and
  decryption releases only authenticated plaintext. \<open>touches S\<close> (collection \<open>frame\<close>) says which files an
  operation can change, and composes up to arbitrary sequences of commands. Key commands refuse
  before they write; derivation is deterministic; what one command prints or writes the next one
  accepts, down to the command line that \<open>sign\<close> prints; every command has words that parse to it,
  and the documented command lines mean what they should, but for three of the README that are refused.
  \<open>Cry_Usage.say\<close> writes a command with the documented option names and defaults, independently of
  the declarations in \<open>Cry_Syntax\<close>.
  The agent and the Windows key file are released on every path on which their guard
  exists; an agent that printed no process id survives its kill command. On Windows no key is
  written unless \<open>icacls\<close> succeeded on the file, and no file is left unless writing the key fails. Reading hangs only when it is interrupted for ever, and encryption ends
  with its input, not with the chunk count it has committed to. The repository's own functional tests pass
  for all primitives that behave as documented; those that expect a rejection pass exactly when the
  primitives tell two inputs apart. Further lemmas record where the code does less than its
  documentation promises.

  \<^bold>\<open>Bounds.\<close> Plaintexts are shorter than \<open>2 ^ 64\<close> bytes, as a file length is 64 bits;
  passphrases and AEAD messages stay below the limits the crates document. There is no fuel:
  the loops consume their reader and terminate by the size of what is left, and a reader is a finite
  script; over sources that need not end (\<open>Cry_Endless\<close>) a loop that never returns has the value
  \<open>None\<close>. Only decimal printing has fuel, the number plus one, which is at least its number of digits.

  \<^bold>\<open>What is assumed.\<close> Theorems that need it name the law of the external code they use:
  \<open>ciphers_lawful\<close> (an AEAD decrypts what it encrypted and adds 16 bytes),
  \<open>ciphers_tidy\<close> (it accepts only what it would produce), \<open>hashes_sized\<close>,
  \<open>argon2_sized\<close>, \<open>argon2_works\<close>, \<open>ed25519_lawful\<close>, \<open>clap_lawful\<close> (words that
  give the required arguments are matched, defaults filled in; a value that is no choice and an
  undeclared option are refused). Secrecy and unforgeability
  are not stated: acceptance is characterised exactly and the rest is the primitives' strength.

  \<^bold>\<open>What is not modelled.\<close> \<open>cry_main\<close> is the program on Unix; the Windows sessions
  (\<open>run_ssh_on_windows\<close>) are modelled on their own and not connected to it. The inside of clap, its other spellings of options and
  its help and version texts but for the examples; progress output other than the formatting helpers,
  the rows and the suggested command lines; zeroizing of memory, the inside of the cryptographic, RSA, OpenSSH and terminal crates,
  and the two argument types of \<open>crydna.rs\<close> that no command uses. Two
  different path strings are two files: links, directories, relative spellings of one file and
  paths that are not UTF-8 are not represented. Benchmark times are exact rationals instead of
  64-bit floating point; \<open>Cry_Bench\<close> says why the ranks are the same.
\<close>

section \<open>Deriving, signing and verifying\<close>

text \<open>C17. The public key file of a derived identity is the one its signatures verify under: when
  \<open>cry derive\<close> and, on the same or another machine, \<open>cry sign\<close> both exit with code 0
  for one passphrase, namespace, version and sub-identity, then the content of the public key file
  is the key that \<open>sign\<close> prints, and \<open>cry verify\<close> with that text and the printed
  signature exits with code 0 on any file of the signed content.\<close>

theorem derived_key_file_verifies_signatures:
  assumes "ed25519_lawful P" and "argon2_sized P" and "hex_encode P = bytes_to_hex"
    and "da_algo d = Ed25519" and "da_passphrase d = Some raw"
    and "cry_main P env clock (Some (Derive d)) s = (0, s1)"
    and "cry_main P env' clock' (Some (Sign a)) t = (0, t1)"
    and "ip_namespace (sg_params a) = da_namespace d"
    and "ip_key_version (sg_params a) = da_key_version d" and "ip_sub_id (sg_params a) = da_sub_id d"
    and "calm (sys t)" and "files (sys t) (sg_file a) = Some e"
    and "fst (read_passphrase (ip_pass_file (sg_params a)) False (sys t)) = Inr (str_bytes raw)"
    and "calm (sys u)" and "files (sys u) f = Some e'" and "contents e' = contents e"
  shows "\<exists>pub sig k. files (sys s1) (da_output d @ ''.cry_pub_id'') = Some k \<and>
    contents k = str_bytes pub \<and>
    printed t1 = printed t @ [Row (''Public key'', pub), Row (''File'', sg_file a), Row (''Signature'', sig)] \<and>
    fst (cry_main P env'' clock'' (Some (Verify \<lparr>vf_file = f, vf_signature = sig, vf_public_key = pub\<rparr>)) u) = 0"
proof -
  obtain i k where
    i: "identity_derive P (str_bytes raw) (da_namespace d) (da_key_version d) (da_sub_id d) = Inr i"
    and stored: "files (sys s1) (da_output d @ ''.cry_pub_id'') = Some k"
      "contents k = str_bytes (hex_encode P (verifying_key P i))"
    by (rule derive_command_writes [OF assms(4-6)])
  then have k: "contents k = str_bytes (public_key_hex P i)" by (simp only: public_key_hex_def assms(3))
  obtain bs v pass j where sign: "fs_read (sg_file a) (sys t) = (Inr bs, v)"
    "fst (read_passphrase (ip_pass_file (sg_params a)) False v) = Inr pass"
    "identity_derive P pass (da_namespace d) (da_key_version d) (da_sub_id d) = Inr j"
    "printed t1 = printed t @ [Row (''Public key'', public_key_hex P j), Row (''File'', sg_file a),
      Row (''Signature'', signature_hex (sign_content P j bs))]"
    by (rule sign_command_prints [OF assms(7), unfolded assms(8-10)])
  have "fs_read (sg_file a) (sys t) = (Inr (contents e), sys t)"
    using assms(11,12) by (simp add: fs_read_def file_open_def)
  then have "bs = contents e'" "v = sys t" using sign(1) assms(16) by simp_all
  with sign(2,3) assms(13) i have same: "j = i" "bs = contents e'" by simp_all
  have "length (signing_key i) = 32" by (rule identity_derive_length [OF assms(2) i])
  from verify_command_accepts [OF assms(1) this assms(14,15)] stored(1) k sign(4) same
  show ?thesis by blast
qed

theorem derived_key_file_verifies_signatures_witness:
  "\<exists>s1 t1 k pub sig.
     cry_main demo_crypto (sample_ssh_env []) (\<lambda>n. of_nat n)
       (Some (Derive (sample_derive_args\<lparr>da_passphrase := Some ''pw''\<rparr>))) (sample_cli (sample_world [])) = (0, s1) \<and>
     cry_main demo_crypto (sample_ssh_env []) (\<lambda>n. of_nat n) (Some (Sign \<lparr>sg_file = ''a'',
       sg_params = \<lparr>ip_namespace = ''default'', ip_key_version = 0, ip_sub_id = None, ip_pass_file = Some ''k''\<rparr>\<rparr>))
       (sample_cli (sample_world [(''a'', [5]), (''k'', str_bytes ''pw'')])) = (0, t1) \<and>
     files (sys s1) ''k.cry_pub_id'' = Some k \<and> contents k = str_bytes pub \<and>
     printed t1 = [Row (''Public key'', pub), Row (''File'', ''a''), Row (''Signature'', sig)] \<and>
     fst (cry_main demo_crypto (sample_ssh_env []) (\<lambda>n. of_nat n) (Some (Verify
       \<lparr>vf_file = ''copy'', vf_signature = sig, vf_public_key = pub\<rparr>)) (sample_cli (sample_world [(''copy'', [5])]))) = 0"
proof -
  let ?d = "sample_derive_args\<lparr>da_passphrase := Some ''pw''\<rparr>"
  let ?a = "\<lparr>sg_file = ''a'', sg_params = \<lparr>ip_namespace = ''default'', ip_key_version = 0, ip_sub_id = None,
      ip_pass_file = Some ''k''\<rparr>\<rparr>"
  let ?s = "sample_cli (sample_world [])" and ?t = "sample_cli (sample_world [(''a'', [5]), (''k'', str_bytes ''pw'')])"
  let ?u = "sample_cli (sample_world [(''copy'', [5])])"
  let ?env = "sample_ssh_env []" and ?clock = "\<lambda>n. of_nat n"
  obtain i where i: "identity_derive demo_crypto (str_bytes ''pw'') ''default'' 0 None = Inr i"
    by (simp add: identity_derive_def demo_crypto_def)
  have algo: "da_algo ?d = Ed25519" by (simp add: sample_derive_args_def)
  have line: "first_line (str_bytes ''pw'') = str_bytes ''pw''" "str_bytes ''pw'' \<noteq> []" by code_simp+
  have pass: "read_passphrase (Some ''k'') False (sys ?t) = (Inr (str_bytes ''pw''), sys ?t)"
    by (simp add: read_passphrase_def fs_read_def file_open_def sample_files line)
  obtain s1 where derive: "cry_main demo_crypto ?env ?clock (Some (Derive ?d)) ?s = (0, s1)"
    using i by (simp add: cry_main_def on_sys_def no_rows_def run_derive_def openssh_pass_def
        derive_Ed25519 [OF algo])
      (simp add: sample_derive_args_def ensure_outputs_writable_def write_identity_files_def
        write_private_key_hex_file_def write_public_key_def key_names sample_files)
  obtain t1 where sign: "cry_main demo_crypto ?env ?clock (Some (Sign ?a)) ?t = (0, t1)"
    using i pass by (simp add: cry_main_def on_sys_def run_sign_def fs_read_def file_open_def sample_files)
  have enc: "hex_encode demo_crypto = bytes_to_hex" by (rule ext) (simp add: demo_crypto_def bytes_to_hex_def)
  have empty: "printed ?t = []" by (simp add: sample_cli_def)
  from derived_key_file_verifies_signatures [OF demo_ed25519_lawful demo_argon2_sized enc algo _ derive sign,
      where raw = "''pw''" and e = "\<lparr>contents = [5], mode = 420\<rparr>" and u = ?u and f = "''copy''" and
      e' = "\<lparr>contents = [5], mode = 420\<rparr>" and env'' = ?env and clock'' = ?clock] pass empty derive sign
  show ?thesis by (auto simp: sample_files sample_derive_args_def)
qed

end
